theory Spec2Isabelle
  imports Complex_Main "HOL-Library.Log_Nat"
begin

section \<open>The M/M/k queue simulator of \<^verbatim>\<open>simulation-hw3.ipynb\<close>\<close>

text \<open>
  The notebook defines one class, \<^verbatim>\<open>MMQueueSimulator\<close>, whose method
  \<^verbatim>\<open>run_simulation\<close> draws exponential interarrival and service times, replays the
  customers against a pool of servers and returns a dictionary of metrics.

  Conventions of the embedding:
  \<^item> Python's floats are 64-bit binary floating-point numbers. They are the type
    \<open>float64\<close> below: the reals with a significand of 53 bits, with addition, subtraction
    and multiplication rounded to the nearest such number, ties to the even significand.
    The exponent range is not bounded: overflow to infinity and gradual underflow are not
    modelled, so that an operation of the model returns what the machine returns as long
    as the machine's result is finite and, for a product or a quotient, not subnormal.
    The statements that need it assume that the values computed stay below
    \<open>max_float64\<close>, the largest finite float of the machine. The one float that is not
    a number, the \<^verbatim>\<open>nan\<close> that \<^verbatim>\<open>np.mean\<close> returns for an empty list, is a value of
    its own.
  \<^item> The rates of a simulator object are given as the real numbers that the floats
    stand for. The two aggregate quotients of the result, the averages and the
    utilization, are the exact quotients of the values they are computed from.
  \<^item> Python's unbounded integers are \<^typ>\<open>int\<close>.
  \<^item> Every exception the method can raise is a value of \<open>py_error\<close>, and a
    computation that may raise returns \<open>py_error + 'a\<close>.
  \<^item> numpy is a library outside the repository. Its seeded generator is taken as a
    parameter (a seeding function and a function drawing one standard exponential
    variate from the generator state); \<^verbatim>\<open>np.argmin\<close>, \<^verbatim>\<open>np.cumsum\<close>,
    \<^verbatim>\<open>np.mean\<close> and \<^verbatim>\<open>np.random.exponential\<close> are written out as their
    documentation describes them.
\<close>

subsection \<open>Errors and values\<close>

datatype py_error = ValueError | ZeroDivisionError | IndexError

datatype np_float = Float real | NaN

subsection \<open>64-bit floating point\<close>

text \<open>
  \<open>binade x\<close> is the exponent \<open>e\<close> with \<open>2 ^ e \<le> \<bar>x\<bar> < 2 ^ (e + 1)\<close>, for \<open>x\<close> other than 0:
  the bit length of the integer part when \<open>\<bar>x\<bar>\<close> is at least 1, and found from the
  reciprocal otherwise.
\<close>

definition binade :: "real \<Rightarrow> int" where
  "binade x =
     (if 1 \<le> \<bar>x\<bar> then bitlen \<lfloor>\<bar>x\<bar>\<rfloor> - 1 else - bitlen (\<lceil>1 / \<bar>x\<bar>\<rceil> - 1))"

text \<open>Rounding to the nearest integer, a tie to the even one.\<close>

definition round_half_even :: "real \<Rightarrow> int" where
  "round_half_even y =
     (let f = \<lfloor>y\<rfloor> in
      if y - of_int f < 1 / 2 then f
      else if 1 / 2 < y - of_int f then f + 1
      else if even f then f else f + 1)"

text \<open>
  Rounding a real to 53 significant bits: in the binade of \<open>x\<close> the representable numbers
  are the multiples of \<open>2 ^ (binade x - 52)\<close>.
\<close>

definition round64 :: "real \<Rightarrow> real" where
  "round64 x =
     (if x = 0 then 0
      else of_int (round_half_even (x / 2 powi (binade x - 52))) * 2 powi (binade x - 52))"

text \<open>
  The floats are the values of \<open>round64\<close>. \<open>Float64 x\<close> is the float nearest to \<open>x\<close> (what
  a literal or a correctly rounded operation with exact result \<open>x\<close> evaluates to), and
  \<open>float_val\<close> is the real number a float stands for.
\<close>

typedef float64 = "range round64"
  morphisms float_val Abs_float64
  by (rule exI[of _ 0]) (simp add: round64_def image_iff)

setup_lifting type_definition_float64

declare float_val_inverse [code abstype]

lift_definition Float64 :: "real \<Rightarrow> float64" is round64
  by simp

instantiation float64 :: "{zero, plus, minus, times, linorder}"
begin

lift_definition zero_float64 :: float64 is 0
  by (simp add: round64_def image_iff)

lift_definition plus_float64 :: "float64 \<Rightarrow> float64 \<Rightarrow> float64" is "\<lambda>a b. round64 (a + b)"
  by simp

lift_definition minus_float64 :: "float64 \<Rightarrow> float64 \<Rightarrow> float64" is "\<lambda>a b. round64 (a - b)"
  by simp

lift_definition times_float64 :: "float64 \<Rightarrow> float64 \<Rightarrow> float64" is "\<lambda>a b. round64 (a * b)"
  by simp

lift_definition less_eq_float64 :: "float64 \<Rightarrow> float64 \<Rightarrow> bool" is "(\<le>)" .

lift_definition less_float64 :: "float64 \<Rightarrow> float64 \<Rightarrow> bool" is "(<)" .

instance
  by standard (transfer, auto)+

end

text \<open>Two floats are equal when they stand for the same real number.\<close>

instantiation float64 :: equal
begin

lift_definition equal_float64 :: "float64 \<Rightarrow> float64 \<Rightarrow> bool" is "(=)" .

instance
  by standard (transfer, simp)

end

text \<open>The largest finite number of the 64-bit format, \<open>(2 - 2 ^ - 52) * 2 ^ 1023\<close>.\<close>

definition max_float64 :: float64 where
  "max_float64 = Float64 ((2 ^ 53 - 1) * 2 ^ 971)"

subsection \<open>The simulator object\<close>

text \<open>The fields that \<^verbatim>\<open>__init__\<close> stores; it checks none of them.\<close>

record MMQueueSimulator =
  arrival_rate :: real
  service_rate :: real
  servers :: int
  total_customers :: int

subsection \<open>numpy\<close>

text \<open>
  \<^verbatim>\<open>np.argmin(a)\<close>: the index of the minimum of \<open>a\<close>, the first one where the
  minimum occurs several times; ValueError on an empty sequence. The scan keeps the
  best index and value seen so far and replaces them only by a strictly smaller entry.
\<close>

fun argmin_scan :: "float64 list \<Rightarrow> nat \<Rightarrow> nat \<Rightarrow> float64 \<Rightarrow> nat" where
  "argmin_scan [] i best v = best"
| "argmin_scan (x # xs) i best v =
     (if x < v then argmin_scan xs (Suc i) i x else argmin_scan xs (Suc i) best v)"

fun argmin :: "float64 list \<Rightarrow> py_error + nat" where
  "argmin [] = Inl ValueError"
| "argmin (x # xs) = Inr (argmin_scan xs 1 0 x)"

text \<open>\<^verbatim>\<open>np.cumsum(a)\<close>: the running sums of \<open>a\<close>, each a float addition.\<close>

fun cumsum_from :: "float64 \<Rightarrow> float64 list \<Rightarrow> float64 list" where
  "cumsum_from acc [] = []"
| "cumsum_from acc (x # xs) = (acc + x) # cumsum_from (acc + x) xs"

definition cumsum :: "float64 list \<Rightarrow> float64 list" where
  "cumsum xs = cumsum_from 0 xs"

text \<open>
  \<^verbatim>\<open>np.mean(a)\<close>: the arithmetic mean of the values; \<^verbatim>\<open>nan\<close> (and a warning) for an
  empty list.
\<close>

definition mean :: "real list \<Rightarrow> np_float" where
  "mean xs = (if xs = [] then NaN else Float (sum_list xs / real (length xs)))"

text \<open>
  The global generator of \<^verbatim>\<open>np.random\<close>, over a type \<open>'g\<close> of generator states:
  \<open>seed\<close> is the state that \<^verbatim>\<open>np.random.seed(s)\<close> installs, whatever the state was
  before, and \<open>standard_exponential\<close> draws one variate of rate 1 and advances the state.
\<close>

record 'g np_random =
  seed :: "int \<Rightarrow> 'g"
  standard_exponential :: "'g \<Rightarrow> float64 \<times> 'g"

fun draws :: "('g \<Rightarrow> float64 \<times> 'g) \<Rightarrow> nat \<Rightarrow> 'g \<Rightarrow> float64 list \<times> 'g" where
  "draws f 0 g = ([], g)"
| "draws f (Suc n) g =
     (case f g of (x, g1) \<Rightarrow> (case draws f n g1 of (xs, g2) \<Rightarrow> (x # xs, g2)))"

text \<open>
  \<^verbatim>\<open>np.random.exponential(scale, size)\<close>: \<open>size\<close> variates, each the float product of
  \<open>scale\<close> and a standard exponential one; ValueError for a negative scale or a negative
  size.
\<close>

definition exponential ::
  "'g np_random \<Rightarrow> float64 \<Rightarrow> int \<Rightarrow> 'g \<Rightarrow> (py_error + float64 list) \<times> 'g" where
  "exponential np scale n g =
     (if scale < 0 \<or> n < 0 then (Inl ValueError, g)
      else (case draws (standard_exponential np) (nat n) g of
              (xs, g') \<Rightarrow> (Inr (map (\<lambda>x. scale * x) xs), g')))"

subsection \<open>The customer loop of \<^verbatim>\<open>run_simulation\<close>\<close>

text \<open>
  The variables the loop updates: \<open>departure_times\<close> (one next-free-time per server),
  the counter \<open>queue_length\<close>, and the two series \<open>queue_lengths\<close> and
  \<open>response_times\<close>.
\<close>

record sim_state =
  departure_times :: "float64 list"
  queue_length :: int
  queue_lengths :: "int list"
  response_times :: "float64 list"

text \<open>
  The state before the first customer: \<^verbatim>\<open>[0] * self.servers\<close> is the empty list when
  \<open>servers\<close> is zero or negative.
\<close>

definition initial_state :: "int \<Rightarrow> sim_state" where
  "initial_state k =
     \<lparr>departure_times = replicate (nat k) 0, queue_length = 0,
      queue_lengths = [], response_times = []\<rparr>"

text \<open>
  The local variables of one iteration, as functions of what they are computed from; the
  sum and the difference are float operations.
\<close>

definition start_service_time :: "float64 \<Rightarrow> float64 \<Rightarrow> float64" where
  "start_service_time arrival next_free_time =
     (if arrival < next_free_time then next_free_time else arrival)"

definition departure_time :: "float64 \<Rightarrow> float64 \<Rightarrow> float64 \<Rightarrow> float64" where
  "departure_time arrival next_free_time service =
     start_service_time arrival next_free_time + service"

definition response_time :: "float64 \<Rightarrow> float64 \<Rightarrow> float64 \<Rightarrow> float64" where
  "response_time arrival next_free_time service =
     departure_time arrival next_free_time service - arrival"

text \<open>
  The body of the loop for one customer. The counter is incremented when the customer
  waits, its value is appended to the series, and it is decremented again at the end of
  the same iteration.
\<close>

definition process_customer ::
  "sim_state \<Rightarrow> float64 \<Rightarrow> float64 \<Rightarrow> py_error + sim_state" where
  "process_customer st arrival service =
     (case argmin (departure_times st) of
        Inl e \<Rightarrow> Inl e
      | Inr next_free_server \<Rightarrow>
          (let next_free_time = departure_times st ! next_free_server;
               queue_length1 =
                 (if arrival < next_free_time then queue_length st + 1 else queue_length st)
           in Inr \<lparr>departure_times =
                      (departure_times st)
                        [next_free_server := departure_time arrival next_free_time service],
                    queue_length =
                      (if arrival < next_free_time then queue_length1 - 1 else queue_length1),
                    queue_lengths = queue_lengths st @ [queue_length1],
                    response_times =
                      response_times st @ [response_time arrival next_free_time service]\<rparr>))"

text \<open>
  \<^verbatim>\<open>for i in range(...)\<close>: the indices in order; reading \<^verbatim>\<open>arrival_times[i]\<close> or
  \<^verbatim>\<open>service_times[i]\<close> past the end of the array raises IndexError.
\<close>

fun customer_loop ::
  "nat list \<Rightarrow> float64 list \<Rightarrow> float64 list \<Rightarrow> sim_state \<Rightarrow> py_error + sim_state" where
  "customer_loop [] arrival_times service_times st = Inr st"
| "customer_loop (i # rest) arrival_times service_times st =
     (if i < length arrival_times \<and> i < length service_times then
        (case process_customer st (arrival_times ! i) (service_times ! i) of
           Inl e \<Rightarrow> Inl e
         | Inr st' \<Rightarrow> customer_loop rest arrival_times service_times st')
      else Inl IndexError)"

text \<open>
  The loop over the first \<open>m\<close> customers, from the initial state of \<open>k\<close> servers;
  \<open>run_simulation\<close> runs it with \<open>m = total_customers\<close>.
\<close>

definition run_customers ::
  "int \<Rightarrow> float64 list \<Rightarrow> float64 list \<Rightarrow> nat \<Rightarrow> py_error + sim_state" where
  "run_customers k arrival_times service_times m =
     customer_loop [0..<m] arrival_times service_times (initial_state k)"

subsection \<open>\<^verbatim>\<open>run_simulation\<close>\<close>

record simulation_result =
  average_queue_length :: np_float
  average_response_time :: np_float
  server_utilization :: real
  queue_lengths_series :: "int list"

text \<open>
  The whole method, from the global generator state \<open>g0\<close> it is called in to its result
  (or the exception it raises) and the generator state it leaves. The divisions are
  Python's: dividing by zero raises ZeroDivisionError, and \<^verbatim>\<open>1 / rate\<close> is the float
  nearest to the quotient.
\<close>

definition run_simulation ::
  "'g np_random \<Rightarrow> MMQueueSimulator \<Rightarrow> 'g \<Rightarrow> (py_error + simulation_result) \<times> 'g" where
  "run_simulation np self g0 =
     (let g = seed np 42 in
      if arrival_rate self = 0 then (Inl ZeroDivisionError, g)
      else
        (case exponential np (Float64 (1 / arrival_rate self)) (total_customers self) g of
           (Inl e, g1) \<Rightarrow> (Inl e, g1)
         | (Inr interarrival_times, g1) \<Rightarrow>
             if service_rate self = 0 then (Inl ZeroDivisionError, g1)
             else
               (case exponential np (Float64 (1 / service_rate self)) (total_customers self)
                       g1 of
                  (Inl e, g2) \<Rightarrow> (Inl e, g2)
                | (Inr service_times, g2) \<Rightarrow>
                    (case run_customers (servers self) (cumsum interarrival_times)
                            service_times (nat (total_customers self)) of
                       Inl e \<Rightarrow> (Inl e, g2)
                     | Inr st \<Rightarrow>
                         if real_of_int (servers self) * service_rate self = 0
                         then (Inl ZeroDivisionError, g2)
                         else
                           (Inr \<lparr>average_queue_length =
                                   mean (map real_of_int (queue_lengths st)),
                                 average_response_time =
                                   mean (map float_val (response_times st)),
                                 server_utilization =
                                   arrival_rate self
                                     / (real_of_int (servers self) * service_rate self),
                                 queue_lengths_series = queue_lengths st\<rparr>, g2)))))"

subsection \<open>Auxiliary notions for the statements\<close>

text \<open>\<open>r\<close> is the first index at which \<open>ys\<close> takes its minimum.\<close>

definition is_first_min :: "float64 list \<Rightarrow> nat \<Rightarrow> bool" where
  "is_first_min ys r =
     (r < length ys \<and> (\<forall>j<length ys. ys ! r \<le> ys ! j) \<and> (\<forall>j<r. ys ! r < ys ! j))"

text \<open>
  The streams of one call of \<open>run_simulation\<close>, as it computes them when it raises
  nothing before the loop: the first \<open>total_customers\<close> draws after seeding, scaled by
  \<open>1 / arrival_rate\<close>; their running sums; and the next \<open>total_customers\<close> draws,
  scaled by \<open>1 / service_rate\<close>.
\<close>

definition interarrival_times :: "'g np_random \<Rightarrow> MMQueueSimulator \<Rightarrow> float64 list" where
  "interarrival_times np self =
     map (\<lambda>x. Float64 (1 / arrival_rate self) * x)
       (fst (draws (standard_exponential np) (nat (total_customers self)) (seed np 42)))"

definition service_times :: "'g np_random \<Rightarrow> MMQueueSimulator \<Rightarrow> float64 list" where
  "service_times np self =
     map (\<lambda>x. Float64 (1 / service_rate self) * x)
       (fst (draws (standard_exponential np) (nat (total_customers self))
          (snd (draws (standard_exponential np) (nat (total_customers self)) (seed np 42)))))"

definition arrival_times :: "'g np_random \<Rightarrow> MMQueueSimulator \<Rightarrow> float64 list" where
  "arrival_times np self = cumsum (interarrival_times np self)"

text \<open>
  A stand-in for numpy's generator, to evaluate \<open>run_simulation\<close> on concrete inputs:
  the state counts the draws, and the draws cycle through 1, 2, 3.
\<close>

definition counter_random :: "nat np_random" where
  "counter_random =
     \<lparr>seed = (\<lambda>s. 0), standard_exponential = (\<lambda>g. (Float64 (real (Suc (g mod 3))), Suc g))\<rparr>"

text \<open>Small scenarios for the examples.\<close>

abbreviation busy_single_server :: MMQueueSimulator where
  "busy_single_server \<equiv>
     \<lparr>arrival_rate = 1, service_rate = 1 / 4, servers = 1, total_customers = 3\<rparr>"

abbreviation idle_four_servers :: MMQueueSimulator where
  "idle_four_servers \<equiv>
     \<lparr>arrival_rate = 1, service_rate = 1 / 4, servers = 4, total_customers = 3\<rparr>"

abbreviation half_loaded_server :: MMQueueSimulator where
  "half_loaded_server \<equiv>
     \<lparr>arrival_rate = 1 / 2, service_rate = 1, servers = 1, total_customers = 3\<rparr>"

abbreviation lone_customer :: MMQueueSimulator where
  "lone_customer \<equiv>
     \<lparr>arrival_rate = 1, service_rate = 1 / 4, servers = 1, total_customers = 1\<rparr>"

text \<open>
  The floats of two examples, named by their shortest decimal representation: the first
  customer of a run with arrival time 0.9385361799537182 and service duration
  1.3167456935454493, and the only customer of a run with arrival rate 0.3 whose two
  variates are 0.4692680899768591 and 3.010121430917521.
\<close>

definition f0_9385361799537182 :: float64 where
  "f0_9385361799537182 = Float64 (2113395595156647 / 2 ^ 51)"

definition f1_3167456935454493 :: float64 where
  "f1_3167456935454493 = Float64 (5930095414792991 / 2 ^ 52)"

definition f2_2552818734991673 :: float64 where
  "f2_2552818734991673 = Float64 (2539221651276571 / 2 ^ 50)"

definition f1_3167456935454491 :: float64 where
  "f1_3167456935454491 = Float64 (2965047707396495 / 2 ^ 51)"

definition f0_4692680899768591 :: float64 where
  "f0_4692680899768591 = Float64 (2113395595156647 / 2 ^ 52)"

definition f3_010121430917521 :: float64 where
  "f3_010121430917521 = Float64 (3389095438655023 / 2 ^ 50)"

definition f1_5642269665895303 :: float64 where
  "f1_5642269665895303 = Float64 (3522325991927745 / 2 ^ 51)"

definition f4_574348397507052 :: float64 where
  "f4_574348397507052 = Float64 (321891152163681 / 2 ^ 46)"

definition f3_0101214309175215 :: float64 where
  "f3_0101214309175215 = Float64 (6778190877310047 / 2 ^ 51)"

text \<open>
  A second stand-in generator, whose first variate is 0.4692680899768591 and whose later
  ones are 3.010121430917521, and the scenario with one customer and the float 0.3
  (\<open>r0_3\<close>, the real number that float stands for) as arrival rate.
\<close>

definition two_variates :: "nat np_random" where
  "two_variates =
     \<lparr>seed = (\<lambda>s. 0),
      standard_exponential =
        (\<lambda>g. (if g = 0 then f0_4692680899768591 else f3_010121430917521, Suc g))\<rparr>"

definition r0_3 :: real where
  "r0_3 = 5404319552844595 / 2 ^ 54"

abbreviation lone_customer_03 :: MMQueueSimulator where
  "lone_customer_03 \<equiv>
     \<lparr>arrival_rate = r0_3, service_rate = 1, servers = 1, total_customers = 1\<rparr>"

section \<open>Properties\<close>

subsection \<open>Rounding\<close>

lemma pow2_pos: "0 < (2::real) powi k"
  by (simp add: zero_less_power_int)

lemma pow2_mono: "j \<le> k \<Longrightarrow> (2::real) powi j \<le> 2 powi k"
  by (rule power_int_increasing) simp_all

lemma pow2_strict_mono: "j < k \<Longrightarrow> (2::real) powi j < 2 powi k"
  by (rule power_int_strict_increasing) simp_all

lemma pow2_Suc: "(2::real) powi (k + 1) = 2 * 2 powi k"
  by (simp add: power_int_add)

lemma pow2_nat: "0 \<le> k \<Longrightarrow> (2::real) powi k = 2 ^ nat k"
  by (simp add: power_int_nonneg_exp)

lemma binade_bounds_pos:
  assumes "0 < x"
  shows "2 powi binade x \<le> x \<and> x < 2 powi (binade x + 1)"
proof (cases "1 \<le> x")
  case True
  define n where "n = \<lfloor>x\<rfloor>"
  from True have n1: "1 \<le> n" by (simp add: n_def)
  then have n0: "0 < n" by simp
  define b where "b = bitlen n"
  from bitlen_bounds[OF n0] have lo: "2 ^ nat (b - 1) \<le> n" and hi: "n < 2 ^ nat b"
    by (simp_all add: b_def)
  from n0 have b1: "1 \<le> b" unfolding b_def
    by (metis bitlen_eq_zero_iff bitlen_nonneg leD linorder_not_less not_le zle_diff1_eq diff_ge_0_iff_ge order_antisym_conv)
  from True have be: "binade x = b - 1" using assms by (simp add: binade_def b_def n_def)
  have "(2::real) powi (b - 1) = 2 ^ nat (b - 1)" using b1 by (simp add: pow2_nat)
  also have "\<dots> \<le> real_of_int n" using lo by (metis of_int_le_iff of_int_numeral of_int_power)
  also have "\<dots> \<le> x" by (simp add: n_def)
  finally have l: "2 powi (b - 1) \<le> x" .
  from hi have "n + 1 \<le> 2 ^ nat b" by simp
  then have "real_of_int (n + 1) \<le> 2 ^ nat b" by (metis of_int_le_iff of_int_numeral of_int_power)
  moreover have "x < real_of_int (n + 1)" unfolding n_def by linarith
  ultimately have "x < 2 ^ nat b" by linarith
  moreover have "(2::real) powi b = 2 ^ nat b" using b1 by (simp add: pow2_nat)
  ultimately have "x < 2 powi b" by simp
  with l be show ?thesis by simp
next
  case False
  with assms have x1: "x < 1" by simp
  define y where "y = 1 / x"
  from assms x1 have y1: "1 < y" by (simp add: y_def)
  define m where "m = \<lceil>y\<rceil> - 1"
  have my: "real_of_int m < y" "y \<le> real_of_int m + 1" unfolding m_def by linarith+
  from y1 my have m0: "0 < m" by linarith
  define b where "b = bitlen m"
  from bitlen_bounds[OF m0] have lo: "2 ^ nat (b - 1) \<le> m" and hi: "m < 2 ^ nat b"
    by (simp_all add: b_def)
  from m0 have b1: "1 \<le> b" unfolding b_def
    by (metis bitlen_eq_zero_iff bitlen_nonneg leD linorder_not_less not_le zle_diff1_eq diff_ge_0_iff_ge order_antisym_conv)
  from False have be: "binade x = - b" using assms by (simp add: binade_def b_def m_def y_def)
  from hi have "m + 1 \<le> 2 ^ nat b" by simp
  then have "real_of_int (m + 1) \<le> 2 ^ nat b" by (metis of_int_le_iff of_int_numeral of_int_power)
  with my have "y \<le> 2 ^ nat b" by linarith
  then have "y \<le> 2 powi b" using b1 by (simp add: pow2_nat)
  then have "1 / 2 powi b \<le> 1 / y" using y1 by (simp add: frac_le)
  moreover have xy: "1 / y = x" by (simp add: y_def)
  moreover have "(2::real) powi (- b) = 1 / 2 powi b" by (simp add: power_int_minus divide_inverse)
  ultimately have l: "2 powi (- b) \<le> x" by simp
  have "(2::real) ^ nat (b - 1) \<le> real_of_int m" using lo by (metis of_int_le_iff of_int_numeral of_int_power)
  with my have "(2::real) ^ nat (b - 1) < y" by linarith
  then have "(2::real) powi (b - 1) < y" using b1 by (simp add: pow2_nat)
  then have "1 / y < 1 / 2 powi (b - 1)" by (simp add: frac_less2 pow2_pos)
  moreover have "(2::real) powi (- (b - 1)) = 1 / 2 powi (b - 1)"
    by (simp only: power_int_minus divide_inverse mult_1)
  ultimately have "x < 2 powi (- (b - 1))" using xy by simp
  then have "x < 2 powi (- b + 1)" by (simp add: algebra_simps)
  with l be show ?thesis by simp
qed

lemma binade_abs: "binade \<bar>x\<bar> = binade x"
  by (simp add: binade_def)

lemma binade_minus: "binade (- x) = binade x"
  by (simp add: binade_def)

lemma binade_bounds:
  "x \<noteq> 0 \<Longrightarrow> 2 powi binade x \<le> \<bar>x\<bar> \<and> \<bar>x\<bar> < 2 powi (binade x + 1)"
  using binade_bounds_pos[of "\<bar>x\<bar>"] by (simp add: binade_abs)

lemma binade_unique:
  assumes "2 powi e \<le> \<bar>x\<bar>" and "\<bar>x\<bar> < 2 powi (e + 1)"
  shows "binade x = e"
proof -
  from assms(1) pow2_pos[of e] have "0 < \<bar>x\<bar>" by (rule less_le_trans[rotated])
  then have x0: "x \<noteq> 0" by simp
  from binade_bounds[OF x0] have b: "2 powi binade x \<le> \<bar>x\<bar>" "\<bar>x\<bar> < 2 powi (binade x + 1)"
    by simp_all
  have "\<not> binade x < e"
  proof
    assume "binade x < e"
    then have "(2::real) powi (binade x + 1) \<le> 2 powi e" by (intro pow2_mono) simp
    with b(2) assms(1) show False by simp
  qed
  moreover have "\<not> e < binade x"
  proof
    assume "e < binade x"
    then have "(2::real) powi (e + 1) \<le> 2 powi binade x" by (intro pow2_mono) simp
    with b(1) assms(2) show False by simp
  qed
  ultimately show ?thesis by simp
qed


lemma round_half_even_of_int: "round_half_even (of_int m) = m"
  by (simp add: round_half_even_def)

lemma round_half_even_bounds:
  "\<lfloor>y\<rfloor> \<le> round_half_even y \<and> round_half_even y \<le> \<lfloor>y\<rfloor> + 1"
  by (simp add: round_half_even_def Let_def)

lemma round_half_even_error: "\<bar>of_int (round_half_even y) - y\<bar> \<le> 1 / 2"
proof -
  have "of_int \<lfloor>y\<rfloor> \<le> y" "y < of_int \<lfloor>y\<rfloor> + 1" by linarith+
  then show ?thesis by (auto simp: round_half_even_def Let_def)
qed

lemma round_half_even_mono:
  assumes "y \<le> z"
  shows "round_half_even y \<le> round_half_even z"
proof (cases "\<lfloor>y\<rfloor> = \<lfloor>z\<rfloor>")
  case True
  with assms show ?thesis by (auto simp: round_half_even_def Let_def)
next
  case False
  with assms have "\<lfloor>y\<rfloor> < \<lfloor>z\<rfloor>" by (simp add: floor_mono order_neq_le_trans)
  with round_half_even_bounds[of y] round_half_even_bounds[of z] show ?thesis by linarith
qed

lemma round_half_even_minus: "round_half_even (- y) = - round_half_even y"
proof (cases "y = of_int \<lfloor>y\<rfloor>")
  case True
  then obtain m where "y = of_int m" ..
  then have "round_half_even (- y) = round_half_even (of_int (- m))" by simp
  also have "\<dots> = - m" by (rule round_half_even_of_int)
  finally show ?thesis using \<open>y = of_int m\<close> by (simp add: round_half_even_of_int)
next
  case False
  then have f: "\<lfloor>- y\<rfloor> = - \<lfloor>y\<rfloor> - 1" by linarith
  have "of_int \<lfloor>y\<rfloor> \<le> y" "y < of_int \<lfloor>y\<rfloor> + 1" by linarith+
  with False f show ?thesis by (auto simp: round_half_even_def Let_def)
qed

lemma scaled_bounds:
  assumes "0 < x"
  shows "2 ^ 52 \<le> x / 2 powi (binade x - 52) \<and> x / 2 powi (binade x - 52) < 2 ^ 53"
proof -
  let ?e = "binade x"
  let ?u = "(2::real) powi (?e - 52)"
  have u: "0 < ?u" by (rule pow2_pos)
  have a: "(2::real) powi ?e = 2 ^ 52 * ?u"
    by (simp add: power_int_diff)
  have b: "(2::real) powi (?e + 1) = 2 ^ 53 * ?u"
    by (simp add: power_int_diff power_int_add)
  from binade_bounds_pos[OF assms] a b have "2 ^ 52 * ?u \<le> x" "x < 2 ^ 53 * ?u" by simp_all
  with u show ?thesis by (simp add: pos_le_divide_eq pos_divide_less_eq)
qed

lemma mantissa_bounds:
  assumes "0 < x"
  shows "2 ^ 52 \<le> round_half_even (x / 2 powi (binade x - 52)) \<and>
         round_half_even (x / 2 powi (binade x - 52)) \<le> 2 ^ 53"
proof -
  let ?q = "x / 2 powi (binade x - 52)"
  from scaled_bounds[OF assms] have q: "of_int (2 ^ 52) \<le> ?q" "?q \<le> of_int (2 ^ 53)" by simp_all
  from round_half_even_mono[OF q(1)] round_half_even_mono[OF q(2)]
  show ?thesis by (simp only: round_half_even_of_int)
qed

lemma round64_0: "round64 0 = 0"
  by (simp add: round64_def)

lemma round64_minus: "round64 (- x) = - round64 x"
  by (simp add: round64_def binade_minus round_half_even_minus)

lemma round64_pos_bounds:
  assumes "0 < x"
  shows "2 powi binade x \<le> round64 x \<and> round64 x \<le> 2 powi (binade x + 1)"
proof -
  let ?e = "binade x"
  let ?u = "(2::real) powi (?e - 52)"
  let ?m = "round_half_even (x / ?u)"
  have u: "0 < ?u" by (rule pow2_pos)
  have a: "(2::real) powi ?e = 2 ^ 52 * ?u"
    by (simp add: power_int_diff)
  have b: "(2::real) powi (?e + 1) = 2 ^ 53 * ?u"
    by (simp add: power_int_diff power_int_add)
  from mantissa_bounds[OF assms] have "(2::real) ^ 52 \<le> of_int ?m" "of_int ?m \<le> (2::real) ^ 53"
    by (metis of_int_le_iff of_int_numeral of_int_power)+
  with u have "2 ^ 52 * ?u \<le> of_int ?m * ?u" "of_int ?m * ?u \<le> 2 ^ 53 * ?u"
    by (simp_all add: mult_right_mono)
  with a b assms show ?thesis by (simp add: round64_def)
qed

lemma round64_pos: "0 < x \<Longrightarrow> 0 < round64 x"
  using round64_pos_bounds[of x] pow2_pos[of "binade x"] by linarith

lemma round64_neg: "x < 0 \<Longrightarrow> round64 x < 0"
  using round64_pos[of "- x"] by (simp add: round64_minus)

lemma round64_eq_0_iff: "round64 x = 0 \<longleftrightarrow> x = 0"
proof
  assume r: "round64 x = 0"
  show "x = 0"
  proof (rule ccontr)
    assume "x \<noteq> 0"
    then consider "0 < x" | "x < 0" by linarith
    then show False using r round64_pos[of x] round64_neg[of x] by cases simp_all
  qed
next
  assume "x = 0"
  then show "round64 x = 0" by (simp add: round64_0)
qed

lemma binade_mono_pos:
  assumes "0 < x" and "x \<le> y"
  shows "binade x \<le> binade y"
proof (rule ccontr)
  assume "\<not> binade x \<le> binade y"
  then have "(2::real) powi (binade y + 1) \<le> 2 powi binade x" by (intro pow2_mono) simp
  moreover from assms have "0 < y" by simp
  ultimately show False using binade_bounds_pos[OF assms(1)] binade_bounds_pos[OF \<open>0 < y\<close>] assms(2)
    by linarith
qed

lemma round64_mono_pos:
  assumes "0 < x" and "x \<le> y"
  shows "round64 x \<le> round64 y"
proof -
  from assms have y: "0 < y" by simp
  from binade_mono_pos[OF assms] consider "binade x = binade y" | "binade x < binade y"
    by linarith
  then show ?thesis
  proof cases
    case 1
    let ?u = "(2::real) powi (binade y - 52)"
    have u: "0 < ?u" by (rule pow2_pos)
    from assms(2) u have "x / ?u \<le> y / ?u" by (simp add: divide_right_mono)
    from round_half_even_mono[OF this]
    have "real_of_int (round_half_even (x / ?u)) \<le> real_of_int (round_half_even (y / ?u))"
      by simp
    with u have "real_of_int (round_half_even (x / ?u)) * ?u
        \<le> real_of_int (round_half_even (y / ?u)) * ?u"
      by (simp add: mult_right_mono)
    with 1 assms y show ?thesis by (simp add: round64_def)
  next
    case 2
    then have "(2::real) powi (binade x + 1) \<le> 2 powi binade y" by (intro pow2_mono) simp
    with round64_pos_bounds[OF assms(1)] round64_pos_bounds[OF y] show ?thesis by linarith
  qed
qed

lemma round64_mono:
  assumes "x \<le> y"
  shows "round64 x \<le> round64 y"
proof -
  consider "0 < x" | "x \<le> 0" "0 \<le> y" | "y < 0" using assms by linarith
  then show ?thesis
  proof cases
    case 1
    from round64_mono_pos[OF 1 assms] show ?thesis .
  next
    case 2
    have "round64 x \<le> 0" using 2(1) round64_neg[of x] round64_0 by (cases "x = 0") auto
    moreover have "0 \<le> round64 y" using 2(2) round64_pos[of y] round64_0 by (cases "y = 0") auto
    ultimately show ?thesis by simp
  next
    case 3
    with assms have "0 < - y" "- y \<le> - x" by simp_all
    from round64_mono_pos[OF this] show ?thesis by (simp add: round64_minus)
  qed
qed


lemma round64_exact_pos:
  assumes "0 < m" and "m \<le> 2 ^ 53"
  shows "round64 (of_int m * 2 powi k) = of_int m * 2 powi k"
proof -
  let ?x = "real_of_int m * 2 powi k"
  let ?e = "binade ?x"
  let ?u = "(2::real) powi (?e - 52)"
  have x: "0 < ?x" using assms(1) pow2_pos[of k] by simp
  have u: "0 < ?u" by (rule pow2_pos)
  from binade_bounds_pos[OF x] have lo: "2 powi ?e \<le> ?x" and hi: "?x < 2 powi (?e + 1)"
    by simp_all
  from assms(2) have m53: "real_of_int m \<le> 2 ^ 53"
    by (metis of_int_le_iff of_int_numeral of_int_power)
  have "?x \<le> 2 ^ 53 * 2 powi k" using m53 pow2_pos[of k] by (simp add: mult_right_mono)
  also have "\<dots> = 2 powi (53 + k)" by (simp add: power_int_add)
  finally have "(2::real) powi ?e \<le> 2 powi (53 + k)" using lo by simp
  then have e53: "?e \<le> 53 + k"
    using pow2_strict_mono[of "53 + k" ?e] by (cases "?e \<le> 53 + k") auto
  have q: "?x / ?u = real_of_int m * 2 powi (k - ?e + 52)"
    by (simp add: power_int_diff power_int_add field_simps)
  have "\<exists>j. ?x / ?u = real_of_int j"
  proof (cases "?e \<le> 52 + k")
    case True
    then have "0 \<le> k - ?e + 52" by simp
    then have "(2::real) powi (k - ?e + 52) = real_of_int (2 ^ nat (k - ?e + 52))"
      by (simp add: pow2_nat)
    with q have "?x / ?u = real_of_int (m * 2 ^ nat (k - ?e + 52))" by simp
    then show ?thesis ..
  next
    case False
    with e53 have e: "?e = 53 + k" by simp
    then have "(2::real) powi (53 + k) \<le> ?x" using lo by simp
    then have "2 ^ 53 * 2 powi k \<le> real_of_int m * 2 powi k" by (simp add: power_int_add)
    then have "(2::real) ^ 53 \<le> real_of_int m" using pow2_pos[of k] by simp
    with m53 have "real_of_int m = 2 ^ 53" by simp
    with q e have "?x / ?u = 2 ^ 53 * 2 powi (- 1)" by simp
    also have "\<dots> = real_of_int (2 ^ 52)" by simp
    finally show ?thesis ..
  qed
  then obtain j where j: "?x / ?u = real_of_int j" ..
  then have "round_half_even (?x / ?u) = j" by (simp add: round_half_even_of_int)
  moreover from x have "?x \<noteq> 0" by (rule less_imp_neq[THEN not_sym])
  ultimately have "round64 ?x = real_of_int j * ?u" unfolding round64_def by (simp only: if_False)
  also have "\<dots> = ?x / ?u * ?u" by (simp add: j)
  also have "\<dots> = ?x" using u by simp
  finally show ?thesis .
qed

lemma round64_exact:
  assumes "\<bar>m\<bar> \<le> 2 ^ 53"
  shows "round64 (of_int m * 2 powi k) = of_int m * 2 powi k"
proof -
  consider "m = 0" | "0 < m" | "m < 0" by linarith
  then show ?thesis
  proof cases
    case 1
    then show ?thesis by (simp add: round64_0)
  next
    case 2
    with assms show ?thesis by (intro round64_exact_pos) simp_all
  next
    case 3
    with assms have "0 < - m" "- m \<le> 2 ^ 53" by simp_all
    from round64_exact_pos[OF this, of k] show ?thesis by (simp add: round64_minus)
  qed
qed

lemma round64_of_int: "\<bar>m\<bar> \<le> 2 ^ 53 \<Longrightarrow> round64 (of_int m) = of_int m"
  using round64_exact[of m 0] by simp

lemma round64_idem: "round64 (round64 x) = round64 x"
proof -
  have pos: "round64 (round64 x) = round64 x" if "0 < x" for x
  proof -
    let ?m = "round_half_even (x / 2 powi (binade x - 52))"
    from mantissa_bounds[OF that] have "\<bar>?m\<bar> \<le> 2 ^ 53" by simp
    from round64_exact[OF this, of "binade x - 52"] that show ?thesis
      by (simp add: round64_def)
  qed
  consider "x = 0" | "0 < x" | "x < 0" by linarith
  then show ?thesis
  proof cases
    case 1
    then show ?thesis by (simp add: round64_0)
  next
    case 2
    then show ?thesis by (rule pos)
  next
    case 3
    then have "0 < - x" by simp
    from pos[OF this] show ?thesis by (simp add: round64_minus)
  qed
qed

lemma round64_error:
  "\<bar>round64 x - x\<bar> \<le> \<bar>round64 x\<bar> / 2 ^ 53"
proof -
  have pos: "\<bar>round64 x - x\<bar> \<le> \<bar>round64 x\<bar> / 2 ^ 53" if "0 < x" for x
  proof -
    let ?e = "binade x"
    let ?u = "(2::real) powi (?e - 52)"
    let ?m = "round_half_even (x / ?u)"
    have u: "0 < ?u" by (rule pow2_pos)
    have r: "round64 x = real_of_int ?m * ?u" using that by (simp add: round64_def)
    have "round64 x - x = (real_of_int ?m - x / ?u) * ?u" using u by (simp add: r field_simps)
    then have "\<bar>round64 x - x\<bar> = \<bar>real_of_int ?m - x / ?u\<bar> * ?u"
      using u by (simp add: abs_mult)
    also have "\<dots> \<le> 1 / 2 * ?u"
      using round_half_even_error[of "x / ?u"] u by (intro mult_right_mono) simp_all
    finally have a: "\<bar>round64 x - x\<bar> \<le> ?u / 2" by simp
    have "(2::real) powi ?e = 2 ^ 52 * ?u" by (simp add: power_int_diff)
    with round64_pos_bounds[OF that] have "2 ^ 52 * ?u \<le> round64 x" by simp
    then have "?u / 2 \<le> round64 x / 2 ^ 53" by simp
    with a have "\<bar>round64 x - x\<bar> \<le> round64 x / 2 ^ 53" by linarith
    moreover from round64_pos[OF that] have "\<bar>round64 x\<bar> = round64 x" by simp
    ultimately show ?thesis by simp
  qed
  consider "x = 0" | "0 < x" | "x < 0" by linarith
  then show ?thesis
  proof cases
    case 1
    then show ?thesis by (simp add: round64_0)
  next
    case 2
    then show ?thesis by (rule pos)
  next
    case 3
    then have "0 < - x" by simp
    from pos[OF this] show ?thesis by (simp add: round64_minus abs_minus_commute)
  qed
qed

subsection \<open>Float operations\<close>

lemma float_val_Float64: "float_val (Float64 x) = round64 x"
  by transfer simp

lemma round64_range: "x \<in> range round64 \<Longrightarrow> round64 x = x"
  by (auto simp: round64_idem)

lemma float_val_round: "round64 (float_val a) = float_val a"
  by transfer (rule round64_range)

lemma float_val_0: "float_val 0 = 0"
  by transfer simp

lemma float_val_plus: "float_val (a + b) = round64 (float_val a + float_val b)"
  by transfer simp

lemma float_val_minus: "float_val (a - b) = round64 (float_val a - float_val b)"
  by transfer simp

lemma float_val_times: "float_val (a * b) = round64 (float_val a * float_val b)"
  by transfer simp

lemma float_le_iff: "a \<le> b \<longleftrightarrow> float_val a \<le> float_val b"
  by transfer simp

lemma float_less_iff: "a < b \<longleftrightarrow> float_val a < float_val b"
  by transfer simp

lemma float_eq_iff: "a = b \<longleftrightarrow> float_val a = float_val b"
  by transfer simp

lemma float_add_increasing: "0 \<le> s \<Longrightarrow> a \<le> a + (s::float64)"
proof transfer
  fix s a :: real
  assume a: "a \<in> range round64" and s: "0 \<le> s"
  from s have "round64 a \<le> round64 (a + s)" by (intro round64_mono) simp
  moreover from a have "round64 a = a" by (rule round64_range)
  ultimately show "a \<le> round64 (a + s)" by simp
qed

lemma float_add_nonneg: "0 \<le> a \<Longrightarrow> 0 \<le> b \<Longrightarrow> 0 \<le> a + (b::float64)"
proof transfer
  fix a b :: real
  assume "0 \<le> a" "0 \<le> b"
  then have "round64 0 \<le> round64 (a + b)" by (intro round64_mono) simp
  then show "0 \<le> round64 (a + b)" by (simp add: round64_0)
qed

lemma float_mult_nonneg: "0 \<le> a \<Longrightarrow> 0 \<le> b \<Longrightarrow> 0 \<le> a * (b::float64)"
proof transfer
  fix a b :: real
  assume "0 \<le> a" "0 \<le> b"
  then have "round64 0 \<le> round64 (a * b)" by (intro round64_mono) simp
  then show "0 \<le> round64 (a * b)" by (simp add: round64_0)
qed

lemma Float64_nonneg: "0 \<le> x \<Longrightarrow> 0 \<le> Float64 x"
proof transfer
  fix x :: real
  assume "0 \<le> x"
  then have "round64 0 \<le> round64 x" by (rule round64_mono)
  then show "0 \<le> round64 x" by (simp add: round64_0)
qed

lemma round64_neg_iff: "round64 x < 0 \<longleftrightarrow> x < 0"
proof
  assume r: "round64 x < 0"
  show "x < 0"
  proof (rule ccontr)
    assume "\<not> x < 0"
    then have "0 \<le> x" by simp
    then have "round64 0 \<le> round64 x" by (rule round64_mono)
    with r show False by (simp add: round64_0)
  qed
next
  assume "x < 0"
  then show "round64 x < 0" by (rule round64_neg)
qed

lemma Float64_neg_iff: "Float64 x < 0 \<longleftrightarrow> x < 0"
  by transfer (rule round64_neg_iff)

text \<open>Rules to evaluate float expressions on small integers.\<close>

lemma Float64_plus: "Float64 x + Float64 y = Float64 (round64 x + round64 y)"
  by transfer simp

lemma Float64_minus: "Float64 x - Float64 y = Float64 (round64 x - round64 y)"
  by transfer simp

lemma Float64_times: "Float64 x * Float64 y = Float64 (round64 x * round64 y)"
  by transfer simp

lemma Float64_less: "Float64 x < Float64 y \<longleftrightarrow> round64 x < round64 y"
  by transfer simp

lemma Float64_le: "Float64 x \<le> Float64 y \<longleftrightarrow> round64 x \<le> round64 y"
  by transfer simp

lemma Float64_eq: "Float64 x = Float64 y \<longleftrightarrow> round64 x = round64 y"
  by transfer simp

lemma zero_Float64: "(0::float64) = Float64 0"
  by transfer (simp add: round64_0)

lemma round64_numeral: "(numeral n :: int) \<le> 2 ^ 53 \<Longrightarrow> round64 (numeral n) = numeral n"
  using round64_of_int[of "numeral n"] by simp

lemma round64_1: "round64 1 = 1"
  using round64_of_int[of 1] by simp

lemmas float64_eval = Float64_plus Float64_minus Float64_times Float64_less Float64_le Float64_eq
  zero_Float64 round64_numeral round64_1 round64_0

lemma round64_at:
  assumes "2 powi e \<le> \<bar>x\<bar>" and "\<bar>x\<bar> < 2 powi (e + 1)"
  shows "round64 x = of_int (round_half_even (x / 2 powi (e - 52))) * 2 powi (e - 52)"
proof -
  from binade_unique[OF assms] have "binade x = e" .
  moreover from assms(1) pow2_pos[of e] have "0 < \<bar>x\<bar>" by (rule less_le_trans[rotated])
  ultimately show ?thesis by (simp add: round64_def)
qed

lemma float_add_0_left: "0 + a = (a::float64)"
  by (simp add: float_eq_iff float_val_plus float_val_0 float_val_round)

lemma float_mult_1_left: "Float64 1 * a = a"
  by (simp add: float_eq_iff float_val_times float_val_Float64 round64_1 float_val_round)

lemma round64_dyadic:
  "\<bar>m\<bar> \<le> 2 ^ 53 \<Longrightarrow> round64 (real_of_int m / 2 ^ k) = real_of_int m / 2 ^ k"
  using round64_exact[of m "- int k"] by (simp add: power_int_minus divide_inverse)

subsection \<open>The rounding error of a response time\<close>

text \<open>
  A response time is computed as \<open>start + s - a\<close> with \<open>a \<le> start\<close>, in two float
  operations; each of them is off by at most its own result times \<open>2 ^ - 53\<close>.
\<close>

lemma float_response_lower:
  fixes a start s :: float64
  assumes "a \<le> start"
  shows "float_val s \<le> float_val (start + s - a)
           + (\<bar>float_val (start + s - a)\<bar> + \<bar>float_val (start + s)\<bar>) / 2 ^ 53"
proof -
  let ?D = "float_val (start + s)" and ?R = "float_val (start + s - a)"
  have d: "?D = round64 (float_val start + float_val s)" by (rule float_val_plus)
  have r: "?R = round64 (?D - float_val a)" by (rule float_val_minus)
  from round64_error[of "float_val start + float_val s"] d
  have "\<bar>?D - (float_val start + float_val s)\<bar> \<le> \<bar>?D\<bar> / 2 ^ 53" by simp
  moreover from round64_error[of "?D - float_val a"] r
  have "\<bar>?R - (?D - float_val a)\<bar> \<le> \<bar>?R\<bar> / 2 ^ 53" by simp
  moreover from assms have "float_val a \<le> float_val start" by (simp add: float_le_iff)
  ultimately have "float_val s \<le> ?R + \<bar>?R\<bar> / 2 ^ 53 + \<bar>?D\<bar> / 2 ^ 53" by linarith
  then show ?thesis by (simp add: add_divide_distrib)
qed

lemma float_response_nonneg:
  fixes a start s :: float64
  assumes "0 \<le> a" and "a \<le> start" and "0 \<le> s"
  shows "0 \<le> start + s - a \<and> start + s - a \<le> start + s"
proof -
  let ?D = "float_val (start + s)"
  from assms(3) have "start \<le> start + s" by (rule float_add_increasing)
  with assms(2) have "a \<le> start + s" by simp
  then have ad: "float_val a \<le> ?D" by (simp add: float_le_iff)
  from assms(1) have a0: "0 \<le> float_val a" by (simp add: float_le_iff float_val_0)
  from ad have "round64 0 \<le> round64 (?D - float_val a)" by (intro round64_mono) simp
  then have lo: "0 \<le> float_val (start + s - a)" by (simp add: round64_0 float_val_minus)
  from a0 have "round64 (?D - float_val a) \<le> round64 ?D" by (intro round64_mono) simp
  then have hi: "float_val (start + s - a) \<le> ?D" by (simp add: float_val_minus float_val_round)
  from lo hi show ?thesis by (simp add: float_le_iff float_val_0)
qed

lemma float_response_shortfall:
  fixes a start s :: float64
  assumes "0 \<le> a" and "a \<le> start" and "0 \<le> s"
  shows "float_val s \<le> float_val (start + s - a) + float_val (start + s) / 2 ^ 52"
proof -
  let ?D = "float_val (start + s)" and ?R = "float_val (start + s - a)"
  from float_response_nonneg[OF assms] have "0 \<le> ?R" "?R \<le> ?D"
    by (simp_all add: float_le_iff float_val_0)
  then have "(\<bar>?R\<bar> + \<bar>?D\<bar>) / 2 ^ 53 \<le> ?D / 2 ^ 52" by simp
  with float_response_lower[OF assms(2), of s] show ?thesis by linarith
qed

lemma float_response_near:
  fixes a s :: float64
  assumes "0 \<le> a" and "0 \<le> s"
  shows "\<bar>float_val (a + s - a) - float_val s\<bar> \<le> float_val (a + s) / 2 ^ 52"
proof -
  let ?D = "float_val (a + s)" and ?R = "float_val (a + s - a)"
  have d: "?D = round64 (float_val a + float_val s)" by (rule float_val_plus)
  have r: "?R = round64 (?D - float_val a)" by (rule float_val_minus)
  from float_response_nonneg[OF assms(1) order_refl assms(2)] have b: "0 \<le> ?R" "?R \<le> ?D"
    by (simp_all add: float_le_iff float_val_0)
  from round64_error[of "float_val a + float_val s"] d
  have "\<bar>?D - (float_val a + float_val s)\<bar> \<le> \<bar>?D\<bar> / 2 ^ 53" by simp
  moreover from round64_error[of "?D - float_val a"] r
  have "\<bar>?R - (?D - float_val a)\<bar> \<le> \<bar>?R\<bar> / 2 ^ 53" by simp
  moreover from b have "\<bar>?R\<bar> / 2 ^ 53 \<le> ?D / 2 ^ 53" "\<bar>?D\<bar> = ?D" by simp_all
  ultimately have "\<bar>?R - float_val s\<bar> \<le> ?D / 2 ^ 53 + ?D / 2 ^ 53" by linarith
  then show ?thesis by simp
qed

subsection \<open>\<^verbatim>\<open>np.argmin\<close> returns the first minimum\<close>

lemma argmin_scan_first_min:
  "is_first_min pre best \<Longrightarrow> i = length pre \<Longrightarrow> v = pre ! best \<Longrightarrow>
   is_first_min (pre @ xs) (argmin_scan xs i best v)"
proof (induction xs arbitrary: pre best i v)
  case Nil
  then show ?case by simp
next
  case (Cons x xs)
  show ?case
  proof (cases "x < v")
    case True
    have "is_first_min (pre @ [x]) (length pre)"
      using Cons.prems True unfolding is_first_min_def
      by (fastforce simp: nth_append less_Suc_eq)
    from Cons.IH[OF this, of "Suc i" x] Cons.prems True show ?thesis by simp
  next
    case False
    have "is_first_min (pre @ [x]) best"
      using Cons.prems False unfolding is_first_min_def
      by (auto simp: nth_append less_Suc_eq)
    from Cons.IH[OF this, of "Suc i" v] Cons.prems False show ?thesis by (simp add: nth_append is_first_min_def)
  qed
qed

lemma argmin_first_min: "argmin ys = Inr r \<Longrightarrow> is_first_min ys r"
proof (cases ys)
  case Nil
  assume "argmin ys = Inr r" with Nil show ?thesis by simp
next
  case (Cons y rest)
  assume a: "argmin ys = Inr r"
  have "is_first_min [y] 0" by (simp add: is_first_min_def)
  from argmin_scan_first_min[OF this, of 1 y rest] a Cons show ?thesis by simp
qed

subsection \<open>One customer\<close>

lemma argmin_nonempty: "ys \<noteq> [] \<Longrightarrow> \<exists>r. argmin ys = Inr r"
  by (cases ys) simp_all

lemma argmin_Inl: "argmin ys = Inl e \<Longrightarrow> ys = [] \<and> e = ValueError"
  by (cases ys) simp_all

lemma process_customer_Inr:
  "argmin (departure_times st) = Inr k \<Longrightarrow>
   process_customer st a s =
     Inr \<lparr>departure_times = (departure_times st)[k := departure_time a (departure_times st ! k) s],
          queue_length = queue_length st,
          queue_lengths = queue_lengths st @
            [if a < departure_times st ! k then queue_length st + 1 else queue_length st],
          response_times = response_times st @ [response_time a (departure_times st ! k) s]\<rparr>"
  by (simp add: process_customer_def Let_def)

lemma process_customer_Inl:
  "process_customer st a s = Inl e \<Longrightarrow> departure_times st = [] \<and> e = ValueError"
  by (auto simp: process_customer_def Let_def split: sum.splits dest: argmin_Inl)

lemma process_customer_empty:
  "departure_times st = [] \<Longrightarrow> process_customer st a s = Inl ValueError"
  by (simp add: process_customer_def)

lemma process_customer_cases:
  assumes "process_customer st a s = Inr st'"
  obtains k where "argmin (departure_times st) = Inr k"
    and "k < length (departure_times st)"
    and "st' = \<lparr>departure_times = (departure_times st)[k := departure_time a (departure_times st ! k) s],
          queue_length = queue_length st,
          queue_lengths = queue_lengths st @
            [if a < departure_times st ! k then queue_length st + 1 else queue_length st],
          response_times = response_times st @ [response_time a (departure_times st ! k) s]\<rparr>"
proof (cases "argmin (departure_times st)")
  case (Inl e)
  with assms show ?thesis by (simp add: process_customer_def)
next
  case (Inr k)
  from argmin_first_min[OF Inr] have "k < length (departure_times st)"
    by (simp add: is_first_min_def)
  with Inr assms process_customer_Inr[OF Inr, of a s] that show ?thesis by simp
qed

subsection \<open>The loop, customer by customer\<close>

lemma customer_loop_append:
  "customer_loop (is @ js) A S st =
     (case customer_loop is A S st of Inl e \<Rightarrow> Inl e | Inr st' \<Rightarrow> customer_loop js A S st')"
  by (induction "is" arbitrary: st) (auto split: sum.splits)

lemma run_customers_0: "run_customers k A S 0 = Inr (initial_state k)"
  by (simp add: run_customers_def)

lemma run_customers_Suc:
  "run_customers k A S (Suc m) =
     (case run_customers k A S m of
        Inl e \<Rightarrow> Inl e
      | Inr st \<Rightarrow>
          if m < length A \<and> m < length S then process_customer st (A ! m) (S ! m)
          else Inl IndexError)"
  by (simp add: run_customers_def customer_loop_append split: sum.splits)

lemma run_customers_prefix:
  "run_customers k A S n = Inr fin \<Longrightarrow> m \<le> n \<Longrightarrow> \<exists>st. run_customers k A S m = Inr st"
proof (induction n arbitrary: fin)
  case 0
  then show ?case by simp
next
  case (Suc n)
  show ?case
  proof (cases "m = Suc n")
    case True
    with Suc.prems show ?thesis by blast
  next
    case False
    with Suc.prems have "m \<le> n" by simp
    moreover from Suc.prems(1) obtain st where "run_customers k A S n = Inr st"
      by (auto simp: run_customers_Suc split: sum.splits)
    ultimately show ?thesis using Suc.IH by blast
  qed
qed

lemma run_customers_step:
  assumes "run_customers k A S n = Inr fin" and "i < n"
  obtains st st' where "run_customers k A S i = Inr st"
    and "run_customers k A S (Suc i) = Inr st'"
    and "i < length A" and "i < length S"
    and "process_customer st (A ! i) (S ! i) = Inr st'"
proof -
  from assms obtain st' where s': "run_customers k A S (Suc i) = Inr st'"
    using run_customers_prefix[of k A S n fin "Suc i"] by auto
  then obtain st where s: "run_customers k A S i = Inr st"
    by (auto simp: run_customers_Suc split: sum.splits)
  from s s' have "i < length A \<and> i < length S \<and> process_customer st (A ! i) (S ! i) = Inr st'"
    by (auto simp: run_customers_Suc split: if_splits)
  with s s' that show ?thesis by blast
qed

text \<open>
  What holds before every customer: one entry per server, the counter back at zero, one
  entry in each series per customer processed so far.
\<close>

lemma run_customers_invariant:
  "run_customers k A S m = Inr st \<Longrightarrow>
     length (departure_times st) = nat k \<and> queue_length st = 0 \<and>
     length (queue_lengths st) = m \<and> length (response_times st) = m \<and>
     m \<le> length A \<and> m \<le> length S"
proof (induction m arbitrary: st)
  case 0
  then show ?case by (auto simp: run_customers_0 initial_state_def)
next
  case (Suc m)
  from Suc.prems obtain st0 where s0: "run_customers k A S m = Inr st0"
    and b: "m < length A" "m < length S"
    and p: "process_customer st0 (A ! m) (S ! m) = Inr st"
    by (auto simp: run_customers_Suc split: sum.splits if_splits)
  from p obtain srv where "st = \<lparr>departure_times = (departure_times st0)[srv := departure_time (A ! m) (departure_times st0 ! srv) (S ! m)],
          queue_length = queue_length st0,
          queue_lengths = queue_lengths st0 @
            [if (A ! m) < departure_times st0 ! srv then queue_length st0 + 1 else queue_length st0],
          response_times = response_times st0 @ [response_time (A ! m) (departure_times st0 ! srv) (S ! m)]\<rparr>"
    by (rule process_customer_cases)
  with Suc.IH[OF s0] b show ?case by simp
qed

lemma run_customers_total:
  "1 \<le> k \<Longrightarrow> m \<le> length A \<Longrightarrow> m \<le> length S \<Longrightarrow> \<exists>st. run_customers k A S m = Inr st"
proof (induction m)
  case 0
  then show ?case by (simp add: run_customers_0)
next
  case (Suc m)
  then obtain st where s: "run_customers k A S m = Inr st" by auto
  from run_customers_invariant[OF s] Suc.prems have "departure_times st \<noteq> []" by auto
  then obtain srv where "argmin (departure_times st) = Inr srv" using argmin_nonempty by blast
  from process_customer_Inr[OF this] s Suc.prems show ?case
    by (simp add: run_customers_Suc)
qed

lemma run_customers_series_prefix:
  "run_customers k A S n = Inr fin \<Longrightarrow> run_customers k A S m = Inr st \<Longrightarrow> m \<le> n \<Longrightarrow>
     queue_lengths st = take m (queue_lengths fin) \<and>
     response_times st = take m (response_times fin)"
proof (induction n arbitrary: fin)
  case 0
  then show ?case by (auto simp: run_customers_0 initial_state_def)
next
  case (Suc n)
  show ?case
  proof (cases "m = Suc n")
    case True
    with Suc.prems run_customers_invariant[OF Suc.prems(1)] show ?thesis by simp
  next
    case False
    with Suc.prems have mn: "m \<le> n" by simp
    from Suc.prems(1) obtain st0 where s0: "run_customers k A S n = Inr st0"
      and p: "process_customer st0 (A ! n) (S ! n) = Inr fin"
      by (auto simp: run_customers_Suc split: sum.splits if_splits)
    from p obtain srv where f: "fin = \<lparr>departure_times = (departure_times st0)[srv := departure_time (A ! n) (departure_times st0 ! srv) (S ! n)],
          queue_length = queue_length st0,
          queue_lengths = queue_lengths st0 @
            [if (A ! n) < departure_times st0 ! srv then queue_length st0 + 1 else queue_length st0],
          response_times = response_times st0 @ [response_time (A ! n) (departure_times st0 ! srv) (S ! n)]\<rparr>"
      by (rule process_customer_cases)
    from Suc.IH[OF s0 Suc.prems(2) mn] run_customers_invariant[OF s0] mn f show ?thesis by simp
  qed
qed

text \<open>
  What the loop records for customer \<open>i\<close> of a run that completes: the state before the
  customer, the server chosen there, the state after, and the entries of the two series.
\<close>

lemma run_customers_record:
  assumes "run_customers k A S n = Inr fin" and "i < n"
  obtains st server where "run_customers k A S i = Inr st"
    and "argmin (departure_times st) = Inr server"
    and "server < length (departure_times st)"
    and "run_customers k A S (Suc i) =
           Inr \<lparr>departure_times = (departure_times st)
                  [server := departure_time (A ! i) (departure_times st ! server) (S ! i)],
                queue_length = 0,
                queue_lengths = queue_lengths st @
                  [if A ! i < departure_times st ! server then 1 else 0],
                response_times = response_times st @
                  [response_time (A ! i) (departure_times st ! server) (S ! i)]\<rparr>"
    and "queue_lengths fin ! i = (if A ! i < departure_times st ! server then 1 else 0)"
    and "response_times fin ! i = response_time (A ! i) (departure_times st ! server) (S ! i)"
proof -
  from assms obtain st st' where s: "run_customers k A S i = Inr st"
    and s': "run_customers k A S (Suc i) = Inr st'"
    and p: "process_customer st (A ! i) (S ! i) = Inr st'"
    by (rule run_customers_step)
  from p obtain server where a: "argmin (departure_times st) = Inr server"
    and b: "server < length (departure_times st)"
    and e: "st' = \<lparr>departure_times = (departure_times st)
                     [server := departure_time (A ! i) (departure_times st ! server) (S ! i)],
                   queue_length = queue_length st,
                   queue_lengths = queue_lengths st @
                     [if A ! i < departure_times st ! server then queue_length st + 1
                      else queue_length st],
                   response_times = response_times st @
                     [response_time (A ! i) (departure_times st ! server) (S ! i)]\<rparr>"
    by (rule process_customer_cases)
  from run_customers_invariant[OF s] have q: "queue_length st = 0"
    and lq: "length (queue_lengths st) = i" and lr: "length (response_times st) = i"
    by simp_all
  from assms(2) have "Suc i \<le> n" by simp
  from run_customers_series_prefix[OF assms(1) s' this]
  have tq: "queue_lengths st' = take (Suc i) (queue_lengths fin)"
    and tr: "response_times st' = take (Suc i) (response_times fin)" by simp_all
  have "queue_lengths fin ! i = queue_lengths st' ! i" by (simp add: tq)
  with e q lq have c4: "queue_lengths fin ! i = (if A ! i < departure_times st ! server then 1 else 0)"
    by (simp add: nth_append)
  have "response_times fin ! i = response_times st' ! i" by (simp add: tr)
  with e lr have c5: "response_times fin ! i = response_time (A ! i) (departure_times st ! server) (S ! i)"
    by (simp add: nth_append)
  from s' e q have c3: "run_customers k A S (Suc i) =
           Inr \<lparr>departure_times = (departure_times st)
                  [server := departure_time (A ! i) (departure_times st ! server) (S ! i)],
                queue_length = 0,
                queue_lengths = queue_lengths st @
                  [if A ! i < departure_times st ! server then 1 else 0],
                response_times = response_times st @
                  [response_time (A ! i) (departure_times st ! server) (S ! i)]\<rparr>"
    by simp
  from that[OF s a b c3 c4 c5] show ?thesis .
qed

lemma run_customers_queue_lengths:
  assumes "run_customers k A S n = Inr fin"
  shows "length (queue_lengths fin) = n \<and>
         (\<forall>i<n. queue_lengths fin ! i = 0 \<or> queue_lengths fin ! i = 1) \<and>
         (\<forall>m\<le>n. \<exists>st. run_customers k A S m = Inr st \<and> queue_length st = 0)"
proof (intro conjI allI impI)
  from run_customers_invariant[OF assms] show "length (queue_lengths fin) = n" by simp
next
  fix i assume "i < n"
  with assms obtain st :: sim_state and server where
    "queue_lengths fin ! i = (if A ! i < departure_times st ! server then 1 else 0)"
    by (rule run_customers_record)
  then show "queue_lengths fin ! i = 0 \<or> queue_lengths fin ! i = 1" by simp
next
  fix m assume "m \<le> n"
  with assms obtain st where s: "run_customers k A S m = Inr st"
    using run_customers_prefix by blast
  from run_customers_invariant[OF s] s
  show "\<exists>st. run_customers k A S m = Inr st \<and> queue_length st = 0" by simp
qed

subsection \<open>Next-free-times only grow\<close>

lemma process_customer_mono:
  assumes "process_customer st a s = Inr st'" and "0 \<le> s"
  shows "length (departure_times st') = length (departure_times st) \<and>
         (\<forall>j<length (departure_times st). departure_times st ! j \<le> departure_times st' ! j)"
proof -
  from assms(1) obtain server where b: "server < length (departure_times st)" and
    e: "st' = \<lparr>departure_times = (departure_times st)
                     [server := departure_time a (departure_times st ! server) s],
                   queue_length = queue_length st,
                   queue_lengths = queue_lengths st @
                     [if a < departure_times st ! server then queue_length st + 1
                      else queue_length st],
                   response_times = response_times st @
                     [response_time a (departure_times st ! server) s]\<rparr>"
    by (rule process_customer_cases)
  have "departure_times st ! server \<le> start_service_time a (departure_times st ! server)"
    by (simp add: start_service_time_def not_less)
  also have "\<dots> \<le> departure_time a (departure_times st ! server) s"
    unfolding departure_time_def using assms(2) by (rule float_add_increasing)
  finally have "departure_times st ! server \<le> departure_time a (departure_times st ! server) s" .
  with e b show ?thesis by (auto simp: nth_list_update)
qed

lemma run_customers_mono:
  "run_customers k A S j = Inr stj \<Longrightarrow> run_customers k A S i = Inr sti \<Longrightarrow> i \<le> j \<Longrightarrow>
   \<forall>m<j. 0 \<le> S ! m \<Longrightarrow>
   length (departure_times sti) = length (departure_times stj) \<and>
   (\<forall>srv<length (departure_times sti). departure_times sti ! srv \<le> departure_times stj ! srv)"
proof (induction j arbitrary: stj)
  case 0
  then show ?case by simp
next
  case (Suc j)
  show ?case
  proof (cases "i = Suc j")
    case True
    with Suc.prems show ?thesis by simp
  next
    case False
    with Suc.prems have ij: "i \<le> j" by simp
    from Suc.prems(1) obtain st0 where s0: "run_customers k A S j = Inr st0"
      and p: "process_customer st0 (A ! j) (S ! j) = Inr stj"
      by (auto simp: run_customers_Suc split: sum.splits if_splits)
    from Suc.prems(4) have nn: "\<forall>m<j. 0 \<le> S ! m" and sj: "0 \<le> S ! j" by simp_all
    from Suc.IH[OF s0 Suc.prems(2) ij nn]
    have l: "length (departure_times sti) = length (departure_times st0)"
      and le: "\<forall>srv<length (departure_times sti). departure_times sti ! srv \<le> departure_times st0 ! srv"
      by simp_all
    from process_customer_mono[OF p sj]
    have l': "length (departure_times stj) = length (departure_times st0)"
      and le': "\<forall>srv<length (departure_times st0). departure_times st0 ! srv \<le> departure_times stj ! srv"
      by simp_all
    from l l' le le' show ?thesis by (auto intro: order_trans)
  qed
qed

subsection \<open>Servers that have not been used yet\<close>

text \<open>
  Before customer \<open>m\<close>, the servers with index \<open>m\<close> and above still have next-free-time 0:
  the first minimum is never found beyond them.
\<close>

lemma run_customers_untouched:
  "run_customers k A S m = Inr st \<Longrightarrow>
     \<forall>j. m \<le> j \<and> j < nat k \<longrightarrow> departure_times st ! j = 0"
proof (induction m arbitrary: st)
  case 0
  then show ?case by (auto simp: run_customers_0 initial_state_def)
next
  case (Suc m)
  from Suc.prems obtain st0 where s0: "run_customers k A S m = Inr st0"
    and p: "process_customer st0 (A ! m) (S ! m) = Inr st"
    by (auto simp: run_customers_Suc split: sum.splits if_splits)
  from p obtain server where a: "argmin (departure_times st0) = Inr server"
    and e: "st = \<lparr>departure_times = (departure_times st0)
                     [server := departure_time (A ! m) (departure_times st0 ! server) (S ! m)],
                   queue_length = queue_length st0,
                   queue_lengths = queue_lengths st0 @
                     [if A ! m < departure_times st0 ! server then queue_length st0 + 1
                      else queue_length st0],
                   response_times = response_times st0 @
                     [response_time (A ! m) (departure_times st0 ! server) (S ! m)]\<rparr>"
    by (rule process_customer_cases)
  from run_customers_invariant[OF s0] have len: "length (departure_times st0) = nat k" by simp
  from argmin_first_min[OF a] have fm: "is_first_min (departure_times st0) server" .
  show ?case
  proof (intro allI impI)
    fix j assume j: "Suc m \<le> j \<and> j < nat k"
    with Suc.IH[OF s0] have zj: "departure_times st0 ! j = 0" and zm: "departure_times st0 ! m = 0"
      by simp_all
    have "server \<noteq> j"
    proof
      assume "server = j"
      with j have "m < server" by simp
      with fm have "departure_times st0 ! server < departure_times st0 ! m"
        by (simp add: is_first_min_def)
      with zj zm \<open>server = j\<close> show False by simp
    qed
    with e zj show "departure_times st ! j = 0" by simp
  qed
qed

lemma run_customers_immediate:
  assumes "run_customers k A S n = Inr fin" and "i < n" and "i < nat k" and "0 \<le> A ! i"
  obtains st server where "run_customers k A S i = Inr st"
    and "argmin (departure_times st) = Inr server"
    and "\<not> A ! i < departure_times st ! server"
    and "queue_lengths fin ! i = 0"
    and "response_times fin ! i = A ! i + S ! i - A ! i"
proof -
  from assms(1,2) obtain st server where s: "run_customers k A S i = Inr st"
    and a: "argmin (departure_times st) = Inr server"
    and q: "queue_lengths fin ! i = (if A ! i < departure_times st ! server then 1 else 0)"
    and r: "response_times fin ! i = response_time (A ! i) (departure_times st ! server) (S ! i)"
    by (rule run_customers_record)
  from run_customers_invariant[OF s] have len: "length (departure_times st) = nat k" by simp
  from run_customers_untouched[OF s] assms(3) have "departure_times st ! i = 0" by simp
  moreover from argmin_first_min[OF a] len assms(3)
  have "departure_times st ! server \<le> departure_times st ! i"
    by (simp add: is_first_min_def)
  ultimately have n: "\<not> A ! i < departure_times st ! server" using assms(4) by simp
  with q r have "queue_lengths fin ! i = 0"
    and "response_times fin ! i = A ! i + S ! i - A ! i"
    by (simp_all add: response_time_def departure_time_def start_service_time_def)
  with that[OF s a n] show ?thesis by simp
qed

lemma run_customers_all_immediate:
  assumes "int n < k" and "length A = n" and "length S = n" and "\<forall>a\<in>set A. 0 \<le> a"
  shows "\<exists>fin. run_customers k A S n = Inr fin \<and>
           queue_lengths fin = replicate n 0 \<and>
           (\<forall>i<n. \<exists>st server.
              run_customers k A S i = Inr st \<and>
              argmin (departure_times st) = Inr server \<and>
              \<not> A ! i < departure_times st ! server \<and>
              start_service_time (A ! i) (departure_times st ! server) = A ! i)"
proof -
  from assms obtain fin where f: "run_customers k A S n = Inr fin"
    using run_customers_total[of k n A S] by auto
  from run_customers_invariant[OF f]
  have lq: "length (queue_lengths fin) = n" and lr: "length (response_times fin) = n"
    by simp_all
  have each: "\<exists>st server.
              run_customers k A S i = Inr st \<and>
              argmin (departure_times st) = Inr server \<and>
              \<not> A ! i < departure_times st ! server \<and>
              start_service_time (A ! i) (departure_times st ! server) = A ! i \<and>
              queue_lengths fin ! i = 0" if "i < n" for i
  proof -
    from that assms(1) have ik: "i < nat k" by simp
    from that assms(2,4) have "0 \<le> A ! i" by simp
    from run_customers_immediate[OF f that ik this] show ?thesis
      by (metis start_service_time_def)
  qed
  from each have q0: "queue_lengths fin ! i = 0" if "i < n" for i
    using that by blast
  from q0 lq have "queue_lengths fin = replicate n 0"
    by (intro nth_equalityI) simp_all
  then show ?thesis using f each by blast
qed

lemma run_customers_single:
  assumes "1 \<le> k" and "0 \<le> a"
  shows "\<exists>fin. run_customers k [a] [s] 1 = Inr fin \<and>
           queue_lengths fin = [0] \<and> response_times fin = [a + s - a]"
proof -
  from assms(1) obtain fin where f: "run_customers k [a] [s] 1 = Inr fin"
    using run_customers_total[of k 1 "[a]" "[s]"] by auto
  from run_customers_invariant[OF f]
  have lq: "length (queue_lengths fin) = 1" and lr: "length (response_times fin) = 1"
    by simp_all
  from assms have "0 < nat k" and "0 \<le> [a] ! 0" by simp_all
  from run_customers_immediate[OF f _ this]
  have "queue_lengths fin ! 0 = 0" and "response_times fin ! 0 = a + s - a" by auto
  with lq lr have "queue_lengths fin = [0]" and "response_times fin = [a + s - a]"
    by (auto simp: length_Suc_conv)
  with f show ?thesis by simp
qed

lemma run_customers_first_departure:
  assumes "run_customers k [a] [s] 1 = Inr fin" and "1 \<le> k" and "0 \<le> a"
  shows "departure_times fin ! 0 = a + s"
proof -
  from assms(1) obtain st :: sim_state and server where s: "run_customers k [a] [s] 0 = Inr st"
    and m: "argmin (departure_times st) = Inr server"
    and b: "server < length (departure_times st)"
    and s': "run_customers k [a] [s] (Suc 0) =
           Inr \<lparr>departure_times = (departure_times st)
                  [server := departure_time ([a] ! 0) (departure_times st ! server) ([s] ! 0)],
                queue_length = 0,
                queue_lengths = queue_lengths st @
                  [if [a] ! 0 < departure_times st ! server then 1 else 0],
                response_times = response_times st @
                  [response_time ([a] ! 0) (departure_times st ! server) ([s] ! 0)]\<rparr>"
    by (rule run_customers_record[of k "[a]" "[s]" 1 fin 0]) simp_all
  from s have st: "departure_times st = replicate (nat k) 0"
    by (auto simp: run_customers_0 initial_state_def)
  from argmin_first_min[OF m] have "\<forall>j<server. departure_times st ! server < departure_times st ! j"
    by (simp add: is_first_min_def)
  with st b have z: "server = 0" by (cases server) auto
  from assms(3) have "\<not> a < 0" by simp
  with s' assms(1) st b z show ?thesis
    by (auto simp: departure_time_def start_service_time_def)
qed

subsection \<open>The whole method\<close>

lemma run_customers_no_servers:
  assumes "k < 1" and "0 < m" and "0 < length A" and "0 < length S"
  shows "run_customers k A S m = Inl ValueError"
proof -
  from assms(2) have "[0..<m] = 0 # [1..<m]" using upt_conv_Cons by auto
  with assms show ?thesis
    by (simp add: run_customers_def initial_state_def process_customer_def)
qed

lemma draws_length: "length (fst (draws f n g)) = n"
proof (induction n arbitrary: g)
  case 0
  then show ?case by simp
next
  case (Suc n)
  obtain x g1 where fg: "f g = (x, g1)" by (cases "f g")
  obtain xs g2 where d: "draws f n g1 = (xs, g2)" by (cases "draws f n g1")
  from Suc.IH[of g1] d have "length xs = n" by simp
  with fg d show ?case by simp
qed

lemma draws_nonneg: "\<forall>g. 0 \<le> fst (f g) \<Longrightarrow> \<forall>x\<in>set (fst (draws f n g)). 0 \<le> x"
proof (induction n arbitrary: g)
  case 0
  then show ?case by simp
next
  case (Suc n)
  obtain x g1 where fg: "f g = (x, g1)" by (cases "f g")
  obtain xs g2 where d: "draws f n g1 = (xs, g2)" by (cases "draws f n g1")
  from Suc.prems fg have "0 \<le> x" by (metis fst_conv)
  moreover from Suc.IH[OF Suc.prems, of g1] d have "\<forall>y\<in>set xs. 0 \<le> y" by simp
  ultimately show ?case using fg d by simp
qed

lemma cumsum_from_length: "length (cumsum_from acc xs) = length xs"
  by (induction xs arbitrary: acc) simp_all

lemma cumsum_from_nonneg:
  "0 \<le> acc \<Longrightarrow> \<forall>x\<in>set xs. 0 \<le> x \<Longrightarrow> \<forall>y\<in>set (cumsum_from acc xs). 0 \<le> y"
proof (induction xs arbitrary: acc)
  case Nil
  then show ?case by simp
next
  case (Cons x xs)
  from Cons.prems have "0 \<le> acc + x" and "\<forall>y\<in>set xs. 0 \<le> y"
    by (simp_all add: float_add_nonneg)
  with Cons.IH[of "acc + x"] show ?case by simp
qed

lemma arrival_times_length: "length (arrival_times np self) = nat (total_customers self)"
  by (simp add: arrival_times_def cumsum_def cumsum_from_length interarrival_times_def draws_length)

lemma service_times_length: "length (service_times np self) = nat (total_customers self)"
  by (simp add: service_times_def draws_length)

lemma arrival_times_nonneg:
  assumes "\<forall>g. 0 \<le> fst (standard_exponential np g)" and "0 < arrival_rate self"
  shows "\<forall>a\<in>set (arrival_times np self). 0 \<le> a"
proof -
  from assms(2) have "0 \<le> Float64 (1 / arrival_rate self)" by (simp add: Float64_nonneg)
  with draws_nonneg[OF assms(1)]
  have "\<forall>x\<in>set (interarrival_times np self). 0 \<le> x"
    by (auto simp: interarrival_times_def intro: float_mult_nonneg)
  then show ?thesis unfolding arrival_times_def cumsum_def
    by (intro cumsum_from_nonneg) simp_all
qed

lemma service_times_nonneg:
  assumes "\<forall>g. 0 \<le> fst (standard_exponential np g)" and "0 < service_rate self"
  shows "\<forall>s\<in>set (service_times np self). 0 \<le> s"
proof -
  from assms(2) have "0 \<le> Float64 (1 / service_rate self)" by (simp add: Float64_nonneg)
  with draws_nonneg[OF assms(1)] show ?thesis
    by (auto simp: service_times_def intro: float_mult_nonneg)
qed

lemma run_simulation_valid:
  assumes "0 < arrival_rate self" and "0 < service_rate self" and "0 \<le> total_customers self"
  shows "fst (run_simulation np self g0) =
     (case run_customers (servers self) (arrival_times np self) (service_times np self)
             (nat (total_customers self)) of
        Inl e \<Rightarrow> Inl e
      | Inr st \<Rightarrow>
          if servers self = 0 then Inl ZeroDivisionError
          else Inr \<lparr>average_queue_length = mean (map real_of_int (queue_lengths st)),
                    average_response_time = mean (map float_val (response_times st)),
                    server_utilization =
                      arrival_rate self / (real_of_int (servers self) * service_rate self),
                    queue_lengths_series = queue_lengths st\<rparr>)"
proof -
  obtain xs g1 where d1:
    "draws (standard_exponential np) (nat (total_customers self)) (seed np 42) = (xs, g1)"
    by (cases "draws (standard_exponential np) (nat (total_customers self)) (seed np 42)")
  obtain ys g2 where d2:
    "draws (standard_exponential np) (nat (total_customers self)) g1 = (ys, g2)"
    by (cases "draws (standard_exponential np) (nat (total_customers self)) g1")
  from d1 d2 have a: "arrival_times np self =
      cumsum (map (\<lambda>x. Float64 (1 / arrival_rate self) * x) xs)"
    and b: "service_times np self = map (\<lambda>x. Float64 (1 / service_rate self) * x) ys"
    by (simp_all add: arrival_times_def interarrival_times_def service_times_def)
  from assms d1 d2 show ?thesis
    unfolding a b
    by (simp add: run_simulation_def exponential_def Let_def Float64_neg_iff not_less
        split: sum.splits)
qed

lemma run_simulation_Inr:
  assumes "fst (run_simulation np self g0) = Inr r"
  obtains fin where "0 < arrival_rate self" and "0 < service_rate self"
    and "0 \<le> total_customers self" and "servers self \<noteq> 0"
    and "run_customers (servers self) (arrival_times np self) (service_times np self)
           (nat (total_customers self)) = Inr fin"
    and "r = \<lparr>average_queue_length = mean (map real_of_int (queue_lengths fin)),
              average_response_time = mean (map float_val (response_times fin)),
              server_utilization =
                arrival_rate self / (real_of_int (servers self) * service_rate self),
              queue_lengths_series = queue_lengths fin\<rparr>"
proof -
  from assms have a: "0 < arrival_rate self"
    by (cases "arrival_rate self = 0")
      (auto simp: run_simulation_def exponential_def Let_def not_less Float64_neg_iff
        split: if_splits prod.splits sum.splits)
  from assms a have n: "0 \<le> total_customers self"
    by (auto simp: run_simulation_def exponential_def Let_def Float64_neg_iff
        split: if_splits)
  from assms a n have s: "0 < service_rate self"
    by (cases "service_rate self = 0")
      (auto simp: run_simulation_def exponential_def Let_def not_less Float64_neg_iff
        split: if_splits prod.splits sum.splits)
  from run_simulation_valid[OF a s n, of np g0] assms that a s n show ?thesis
    by (auto split: sum.splits if_splits)
qed

lemma run_simulation_fails:
  assumes "arrival_rate self \<le> 0 \<or> service_rate self \<le> 0 \<or> total_customers self < 0 \<or>
           (servers self < 1 \<and> 0 < total_customers self) \<or>
           (servers self = 0 \<and> total_customers self = 0)"
  shows "fst (run_simulation np self g0) = Inl ValueError \<or>
         fst (run_simulation np self g0) = Inl ZeroDivisionError"
proof (cases "0 < arrival_rate self \<and> 0 < service_rate self \<and> 0 \<le> total_customers self")
  case True
  then have v: "0 < arrival_rate self" "0 < service_rate self" "0 \<le> total_customers self"
    by simp_all
  note eq = run_simulation_valid[OF v, of np g0]
  from assms True consider "servers self < 1 \<and> 0 < total_customers self"
    | "servers self = 0 \<and> total_customers self = 0" by force
  then show ?thesis
  proof cases
    case 1
    with run_customers_no_servers[of "servers self" "nat (total_customers self)"
        "arrival_times np self" "service_times np self"]
    have "run_customers (servers self) (arrival_times np self) (service_times np self)
            (nat (total_customers self)) = Inl ValueError"
      by (simp add: arrival_times_length service_times_length)
    with eq show ?thesis by simp
  next
    case 2
    then show ?thesis using eq by (simp add: run_customers_0)
  qed
next
  case False
  show ?thesis
  proof (cases "arrival_rate self = 0")
    case True
    then show ?thesis by (simp add: run_simulation_def)
  next
    case a: False
    show ?thesis
    proof (cases "arrival_rate self < 0 \<or> total_customers self < 0")
      case True
      with a show ?thesis by (auto simp: run_simulation_def exponential_def Float64_neg_iff)
    next
      case b: False
      with a False have s: "service_rate self \<le> 0" by auto
      obtain xs g1 where d1:
        "draws (standard_exponential np) (nat (total_customers self)) (seed np 42) = (xs, g1)"
        by (cases "draws (standard_exponential np) (nat (total_customers self)) (seed np 42)")
      from a b s d1 show ?thesis
        by (cases "service_rate self = 0")
          (auto simp: run_simulation_def exponential_def Let_def Float64_neg_iff)
    qed
  qed
qed

subsection \<open>Evaluation on concrete inputs\<close>

lemma float_val_numeral:
  "(numeral n :: int) \<le> 2 ^ 53 \<Longrightarrow> float_val (Float64 (numeral n)) = numeral n"
  by (simp add: float_val_Float64 round64_numeral)

lemma float_val_Float64_1: "float_val (Float64 1) = 1"
  by (simp add: float_val_Float64 round64_1)

lemma float_val_Float64_0: "float_val (Float64 0) = 0"
  by (simp add: float_val_Float64 round64_0)

lemma draws_numeral:
  "draws f (numeral n) g =
     (case f g of (x, g1) \<Rightarrow> (case draws f (pred_numeral n) g1 of (xs, g2) \<Rightarrow> (x # xs, g2)))"
  by (simp add: numeral_eq_Suc)

lemma draws_1: "draws f 1 g = (case f g of (x, g1) \<Rightarrow> ([x], g1))"
  using draws.simps(2)[of f 0 g] by (simp split: prod.splits)

lemmas loop_eval = run_customers_def initial_state_def process_customer_def upt_rec
  departure_time_def start_service_time_def response_time_def eval_nat_numeral Let_def
  float64_eval

lemmas stream_eval = interarrival_times_def service_times_def arrival_times_def cumsum_def
  counter_random_def draws_numeral draws_1 float64_eval

lemmas mean_eval = mean_def float_val_numeral float_val_Float64_1 float_val_Float64_0

text \<open>The largest finite float, and small numbers below it.\<close>

lemma float_val_max_float64: "float_val max_float64 = (2 ^ 53 - 1) * 2 ^ 971"
proof -
  have "round64 (real_of_int (2 ^ 53 - 1) * 2 powi 971) = real_of_int (2 ^ 53 - 1) * 2 powi 971"
    by (rule round64_exact) simp
  then show ?thesis by (simp add: max_float64_def float_val_Float64)
qed

lemma numeral_le_max_float64:
  assumes "(numeral n :: int) \<le> 2 ^ 53"
  shows "Float64 (numeral n) \<le> max_float64"
proof -
  from assms have "(numeral n :: real) \<le> 2 ^ 53"
    by (metis of_int_le_iff of_int_numeral of_int_power)
  also have "(2::real) ^ 53 \<le> (2 ^ 53 - 1) * 2 ^ 971" by simp
  finally show ?thesis
    using assms by (simp add: float_le_iff float_val_max_float64 float_val_numeral)
qed

lemma one_le_max_float64: "Float64 1 \<le> max_float64"
  by (simp add: float_le_iff float_val_max_float64 float_val_Float64_1)

text \<open>The floats of the two larger examples, and the operations on them.\<close>

lemma val_0_9385361799537182:
  "round64 (2113395595156647 / 2 ^ 51) = 2113395595156647 / 2 ^ 51"
  using round64_dyadic[of 2113395595156647 51] by simp

lemma val_1_3167456935454493:
  "round64 (5930095414792991 / 2 ^ 52) = 5930095414792991 / 2 ^ 52"
  using round64_dyadic[of 5930095414792991 52] by simp

lemma val_2_2552818734991673:
  "round64 (2539221651276571 / 2 ^ 50) = 2539221651276571 / 2 ^ 50"
  using round64_dyadic[of 2539221651276571 50] by simp

lemma val_1_3167456935454491:
  "round64 (2965047707396495 / 2 ^ 51) = 2965047707396495 / 2 ^ 51"
  using round64_dyadic[of 2965047707396495 51] by simp

lemma val_0_4692680899768591:
  "round64 (2113395595156647 / 2 ^ 52) = 2113395595156647 / 2 ^ 52"
  using round64_dyadic[of 2113395595156647 52] by simp

lemma val_3_010121430917521:
  "round64 (3389095438655023 / 2 ^ 50) = 3389095438655023 / 2 ^ 50"
  using round64_dyadic[of 3389095438655023 50] by simp

lemma val_1_5642269665895303:
  "round64 (3522325991927745 / 2 ^ 51) = 3522325991927745 / 2 ^ 51"
  using round64_dyadic[of 3522325991927745 51] by simp

lemma val_4_574348397507052:
  "round64 (321891152163681 / 2 ^ 46) = 321891152163681 / 2 ^ 46"
  using round64_dyadic[of 321891152163681 46] by simp

lemma val_3_0101214309175215:
  "round64 (6778190877310047 / 2 ^ 51) = 6778190877310047 / 2 ^ 51"
  using round64_dyadic[of 6778190877310047 51] by simp

lemma sum_0_9385361799537182:
  "round64 (2113395595156647 / 2 ^ 51 + 5930095414792991 / 2 ^ 52) =
     2539221651276571 / 2 ^ 50"
  by (subst round64_at[of 1]) (simp_all add: round_half_even_def)

lemma diff_2_2552818734991673:
  "round64 (2539221651276571 / 2 ^ 50 - 2113395595156647 / 2 ^ 51) =
     2965047707396495 / 2 ^ 51"
  by (subst round64_at[of 0]) (simp_all add: round_half_even_def)

lemma quot_0_3: "round64 (1 / (5404319552844595 / 2 ^ 54)) = 7505999378950827 / 2 ^ 51"
  by (subst round64_at[of 1]) (simp_all add: round_half_even_def)

lemma prod_0_4692680899768591:
  "round64 (7505999378950827 / 2 ^ 51 * (2113395595156647 / 2 ^ 52)) =
     3522325991927745 / 2 ^ 51"
  by (subst round64_at[of 0]) (simp_all add: round_half_even_def)

lemma sum_1_5642269665895303:
  "round64 (3522325991927745 / 2 ^ 51 + 3389095438655023 / 2 ^ 50) =
     321891152163681 / 2 ^ 46"
  by (subst round64_at[of 2]) (simp_all add: round_half_even_def)

lemma diff_4_574348397507052:
  "round64 (321891152163681 / 2 ^ 46 - 3522325991927745 / 2 ^ 51) =
     6778190877310047 / 2 ^ 51"
  by (subst round64_at[of 1]) (simp_all add: round_half_even_def)

lemma first_arrival_nonneg: "\<not> f0_9385361799537182 < 0"
  unfolding f0_9385361799537182_def
  by (simp only: float_less_iff float_val_Float64 float_val_0 val_0_9385361799537182) simp

lemma first_departure: "f0_9385361799537182 + f1_3167456935454493 = f2_2552818734991673"
  unfolding f0_9385361799537182_def f1_3167456935454493_def f2_2552818734991673_def
  by (simp only: float_eq_iff float_val_plus float_val_Float64 val_0_9385361799537182
      val_1_3167456935454493 sum_0_9385361799537182 val_2_2552818734991673)

lemma first_response: "f2_2552818734991673 - f0_9385361799537182 = f1_3167456935454491"
  unfolding f0_9385361799537182_def f1_3167456935454491_def f2_2552818734991673_def
  by (simp only: float_eq_iff float_val_minus float_val_Float64 val_0_9385361799537182
      val_2_2552818734991673 diff_2_2552818734991673 val_1_3167456935454491)

lemma first_response_less: "f1_3167456935454491 < f1_3167456935454493"
  unfolding f1_3167456935454491_def f1_3167456935454493_def
  by (simp only: float_less_iff float_val_Float64 val_1_3167456935454491
      val_1_3167456935454493) simp

lemma r0_3_pos: "0 < r0_3"
  by (simp add: r0_3_def)

lemma lone_arrival: "Float64 (1 / r0_3) * f0_4692680899768591 = f1_5642269665895303"
  unfolding r0_3_def f0_4692680899768591_def f1_5642269665895303_def
  by (simp only: float_eq_iff float_val_times float_val_Float64 quot_0_3
      val_0_4692680899768591 prod_0_4692680899768591 val_1_5642269665895303)

lemma lone_arrival_nonneg: "\<not> f1_5642269665895303 < 0"
  unfolding f1_5642269665895303_def
  by (simp only: float_less_iff float_val_Float64 float_val_0 val_1_5642269665895303) simp

lemma lone_departure: "f1_5642269665895303 + f3_010121430917521 = f4_574348397507052"
  unfolding f1_5642269665895303_def f3_010121430917521_def f4_574348397507052_def
  by (simp only: float_eq_iff float_val_plus float_val_Float64 val_1_5642269665895303
      val_3_010121430917521 sum_1_5642269665895303 val_4_574348397507052)

lemma lone_response: "f4_574348397507052 - f1_5642269665895303 = f3_0101214309175215"
  unfolding f1_5642269665895303_def f4_574348397507052_def f3_0101214309175215_def
  by (simp only: float_eq_iff float_val_minus float_val_Float64 val_1_5642269665895303
      val_4_574348397507052 diff_4_574348397507052 val_3_0101214309175215)

lemma lone_response_differs: "f3_010121430917521 < f3_0101214309175215"
  unfolding f3_010121430917521_def f3_0101214309175215_def
  by (simp only: float_less_iff float_val_Float64 val_3_010121430917521
      val_3_0101214309175215) simp

lemma lone_response_val: "float_val f3_0101214309175215 = 6778190877310047 / 2 ^ 51"
  unfolding f3_0101214309175215_def
  by (simp only: float_val_Float64 val_3_0101214309175215)

lemma lone_streams:
  "arrival_times two_variates lone_customer_03 = [f1_5642269665895303]"
  "service_times two_variates lone_customer_03 = [f3_010121430917521]"
  by (simp_all add: arrival_times_def interarrival_times_def service_times_def cumsum_def
      two_variates_def draws_1 lone_arrival float_add_0_left float_mult_1_left)

lemma lone_loop:
  "run_customers 1 [f1_5642269665895303] [f3_010121430917521] 1 =
     Inr \<lparr>departure_times = [f4_574348397507052], queue_length = 0, queue_lengths = [0],
          response_times = [f3_0101214309175215]\<rparr>"
  by (simp add: run_customers_def initial_state_def process_customer_def
      departure_time_def start_service_time_def response_time_def
      lone_arrival_nonneg lone_departure lone_response)

lemma first_loop:
  "run_customers 1 [f0_9385361799537182] [f1_3167456935454493] 1 =
     Inr \<lparr>departure_times = [f2_2552818734991673], queue_length = 0, queue_lengths = [0],
          response_times = [f1_3167456935454491]\<rparr>"
  by (simp add: run_customers_def initial_state_def process_customer_def
      departure_time_def start_service_time_def response_time_def
      first_arrival_nonneg first_departure first_response)

text \<open>The streams and the loop of the small scenarios, with \<open>counter_random\<close>.\<close>

lemma busy_streams:
  "arrival_times counter_random busy_single_server = [Float64 1, Float64 3, Float64 6]"
  "service_times counter_random busy_single_server = [Float64 4, Float64 8, Float64 12]"
  by (simp_all add: stream_eval)

lemma busy_loop:
  "run_customers 1 [Float64 1, Float64 3, Float64 6] [Float64 4, Float64 8, Float64 12] 3 =
     Inr \<lparr>departure_times = [Float64 25], queue_length = 0, queue_lengths = [0, 1, 1],
          response_times = [Float64 4, Float64 10, Float64 19]\<rparr>"
  by (simp add: loop_eval)

lemma busy_generator: "snd (run_simulation counter_random busy_single_server g) = 6"
  by (simp add: run_simulation_def exponential_def counter_random_def draws_numeral draws_1
      Float64_neg_iff split: prod.splits sum.splits)

lemma idle_streams:
  "arrival_times counter_random idle_four_servers = [Float64 1, Float64 3, Float64 6]"
  "service_times counter_random idle_four_servers = [Float64 4, Float64 8, Float64 12]"
  by (simp_all add: stream_eval)

lemma idle_loop:
  "run_customers 4 [Float64 1, Float64 3, Float64 6] [Float64 4, Float64 8, Float64 12] 3 =
     Inr \<lparr>departure_times = [Float64 5, Float64 11, Float64 18, 0], queue_length = 0,
          queue_lengths = [0, 0, 0], response_times = [Float64 4, Float64 8, Float64 12]\<rparr>"
  by (simp add: loop_eval)

lemma half_loaded_streams:
  "arrival_times counter_random half_loaded_server = [Float64 2, Float64 6, Float64 12]"
  "service_times counter_random half_loaded_server = [Float64 1, Float64 2, Float64 3]"
  by (simp_all add: stream_eval)

lemma half_loaded_loop:
  "run_customers 1 [Float64 2, Float64 6, Float64 12] [Float64 1, Float64 2, Float64 3] 3 =
     Inr \<lparr>departure_times = [Float64 15], queue_length = 0, queue_lengths = [0, 0, 0],
          response_times = [Float64 1, Float64 2, Float64 3]\<rparr>"
  by (simp add: loop_eval)

lemma lone_customer_streams:
  "arrival_times counter_random lone_customer = [Float64 1]"
  "service_times counter_random lone_customer = [Float64 8]"
  by (simp_all add: stream_eval)

lemma lone_customer_loop:
  "run_customers 1 [Float64 1] [Float64 8] 1 =
     Inr \<lparr>departure_times = [Float64 9], queue_length = 0, queue_lengths = [0],
          response_times = [Float64 8]\<rparr>"
  by (simp add: loop_eval)

lemma counter_random_nonneg: "\<forall>g. 0 \<le> fst (standard_exponential counter_random g)"
  by (simp add: counter_random_def Float64_nonneg)

lemma two_variates_nonneg: "\<forall>g. 0 \<le> fst (standard_exponential two_variates g)"
  by (simp add: two_variates_def f0_4692680899768591_def f3_010121430917521_def
      Float64_nonneg)

section \<open>The claims\<close>

text \<open>
  Claims about the customer loop are stated for \<open>run_customers k A S n\<close>, the loop over
  \<open>n\<close> customers with \<open>k\<close> servers, arrival times \<open>A\<close> and service times \<open>S\<close>;
  \<open>run_customers k A S i\<close> is then the state in which customer \<open>i\<close> is processed. A call
  of \<open>run_simulation\<close> that raises nothing before the loop runs exactly this loop on
  \<open>arrival_times\<close> and \<open>service_times\<close> (lemma \<open>run_simulation_valid\<close>). Sums and
  differences of times are float operations, rounded as the machine rounds them.
\<close>

subsection \<open>C1: what happens to each customer\<close>

text \<open>
  Claim C1. With at least one server and \<open>n\<close> arrival times and \<open>n\<close> service durations, the
  loop completes, and customer \<open>i\<close> is processed in the state the customers before it have
  left: with \<open>server\<close> the server chosen there, the service starts at that server's
  next-free-time if the arrival time is strictly less than it and at the arrival time
  otherwise; the departure time is the start plus the service duration; the server's
  next-free-time becomes the departure time; and the response time recorded for the
  customer is the departure time minus the arrival time.
\<close>

theorem customer_processing:
  assumes "1 \<le> k" and "length A = n" and "length S = n" and "i < n"
  shows "\<exists>st st' fin server.
           run_customers k A S i = Inr st \<and>
           run_customers k A S (Suc i) = Inr st' \<and>
           run_customers k A S n = Inr fin \<and>
           argmin (departure_times st) = Inr server \<and>
           (let next_free_time = departure_times st ! server;
                serviceStartTime = (if A ! i < next_free_time then next_free_time else A ! i);
                departureTime = serviceStartTime + S ! i
            in start_service_time (A ! i) next_free_time = serviceStartTime \<and>
               departure_time (A ! i) next_free_time (S ! i) = departureTime \<and>
               departure_times st' = (departure_times st)[server := departureTime] \<and>
               departure_times st' ! server = departureTime \<and>
               response_times st' = response_times st @ [departureTime - A ! i] \<and>
               response_times fin ! i = departureTime - A ! i)"
proof -
  from assms obtain fin where f: "run_customers k A S n = Inr fin"
    using run_customers_total[of k n A S] by auto
  from f assms(4) obtain st server where s: "run_customers k A S i = Inr st"
    and a: "argmin (departure_times st) = Inr server"
    and b: "server < length (departure_times st)"
    and s': "run_customers k A S (Suc i) =
           Inr \<lparr>departure_times = (departure_times st)
                  [server := departure_time (A ! i) (departure_times st ! server) (S ! i)],
                queue_length = 0,
                queue_lengths = queue_lengths st @
                  [if A ! i < departure_times st ! server then 1 else 0],
                response_times = response_times st @
                  [response_time (A ! i) (departure_times st ! server) (S ! i)]\<rparr>"
    and r: "response_times fin ! i = response_time (A ! i) (departure_times st ! server) (S ! i)"
    by (rule run_customers_record)
  from s s' f a b r show ?thesis
    by (simp add: Let_def response_time_def departure_time_def start_service_time_def)
qed

text \<open>
  One server, three customers arriving at 1, 2 and 3 with service durations 5, 1 and 5:
  the second customer arrives at 2, before the server is free at 6, starts at 6, departs
  at 7 and has response time 5.
\<close>

theorem customer_processing_witness:
  "(1::int) \<le> 1 \<and> length [Float64 1, Float64 2, Float64 3] = 3 \<and>
   length [Float64 5, Float64 1, Float64 5] = 3 \<and> (1::nat) < 3 \<and>
   run_customers 1 [Float64 1, Float64 2, Float64 3] [Float64 5, Float64 1, Float64 5] 1 =
     Inr \<lparr>departure_times = [Float64 6], queue_length = 0, queue_lengths = [0],
          response_times = [Float64 5]\<rparr> \<and>
   argmin [Float64 6] = Inr 0 \<and>
   run_customers 1 [Float64 1, Float64 2, Float64 3] [Float64 5, Float64 1, Float64 5]
       (Suc 1) =
     Inr \<lparr>departure_times = [Float64 7], queue_length = 0, queue_lengths = [0, 1],
          response_times = [Float64 5, Float64 5]\<rparr> \<and>
   run_customers 1 [Float64 1, Float64 2, Float64 3] [Float64 5, Float64 1, Float64 5] 3 =
     Inr \<lparr>departure_times = [Float64 12], queue_length = 0, queue_lengths = [0, 1, 1],
          response_times = [Float64 5, Float64 5, Float64 9]\<rparr>"
proof -
  have "run_customers 1 [Float64 1, Float64 2, Float64 3]
          [Float64 5, Float64 1, Float64 5] 1 =
     Inr \<lparr>departure_times = [Float64 6], queue_length = 0, queue_lengths = [0],
          response_times = [Float64 5]\<rparr>"
    by (simp add: loop_eval)
  moreover have "run_customers 1 [Float64 1, Float64 2, Float64 3]
          [Float64 5, Float64 1, Float64 5] (Suc 1) =
     Inr \<lparr>departure_times = [Float64 7], queue_length = 0, queue_lengths = [0, 1],
          response_times = [Float64 5, Float64 5]\<rparr>"
    by (simp add: loop_eval)
  moreover have "run_customers 1 [Float64 1, Float64 2, Float64 3]
          [Float64 5, Float64 1, Float64 5] 3 =
     Inr \<lparr>departure_times = [Float64 12], queue_length = 0, queue_lengths = [0, 1, 1],
          response_times = [Float64 5, Float64 5, Float64 9]\<rparr>"
    by (simp add: loop_eval)
  ultimately show ?thesis
    using customer_processing[of 1 "[Float64 1, Float64 2, Float64 3]" 3
        "[Float64 5, Float64 1, Float64 5]" 1]
    by simp
qed

subsection \<open>C2: invalid parameters\<close>

text \<open>
  Claim C2 says that every invalid configuration is rejected with an InvalidParameter
  error before the run. The method has no validation step and no such error. A
  configuration with no customers, one server and positive rates is not rejected: the
  loop body never runs and a result comes back, with an empty queue-length series and
  both averages \<^verbatim>\<open>nan\<close>.
\<close>

theorem zero_customers_returns_result:
  "fst (run_simulation counter_random
          \<lparr>arrival_rate = 1 / 2, service_rate = 1, servers = 1, total_customers = 0\<rparr> 7) =
     Inr \<lparr>average_queue_length = NaN, average_response_time = NaN,
          server_utilization = 1 / 2, queue_lengths_series = []\<rparr>"
  by (simp add: run_simulation_valid run_customers_0 initial_state_def mean_def)

text \<open>
  Claim C2, amended. What the method does with an invalid configuration follows from
  the operations it performs. If a rate is zero or negative, the customer count is
  negative, there is no server for at least one customer, or there are zero servers and
  zero customers, the call raises ValueError or ZeroDivisionError and returns no result
  (the exception comes from a division, from the generator, or from \<^verbatim>\<open>np.argmin\<close> on
  an empty server list at the first customer). If the customer count is zero, the rates
  are positive and the server count is not zero, the call raises nothing and returns the
  result with an empty series, \<^verbatim>\<open>nan\<close> averages and the closed-form utilization. The two
  streams always have the same length, since both are drawn with \<open>total_customers\<close>
  entries.
\<close>

theorem invalid_parameters_outcome:
  "(arrival_rate self \<le> 0 \<or> service_rate self \<le> 0 \<or> total_customers self < 0 \<or>
    (servers self < 1 \<and> 0 < total_customers self) \<or>
    (servers self = 0 \<and> total_customers self = 0) \<longrightarrow>
      fst (run_simulation np self g0) = Inl ValueError \<or>
      fst (run_simulation np self g0) = Inl ZeroDivisionError) \<and>
   (0 < arrival_rate self \<and> 0 < service_rate self \<and> total_customers self = 0 \<and>
    servers self \<noteq> 0 \<longrightarrow>
      fst (run_simulation np self g0) =
        Inr \<lparr>average_queue_length = NaN, average_response_time = NaN,
             server_utilization =
               arrival_rate self / (real_of_int (servers self) * service_rate self),
             queue_lengths_series = []\<rparr>) \<and>
   length (arrival_times np self) = length (service_times np self)"
proof (intro conjI impI)
  assume "arrival_rate self \<le> 0 \<or> service_rate self \<le> 0 \<or> total_customers self < 0 \<or>
    (servers self < 1 \<and> 0 < total_customers self) \<or>
    (servers self = 0 \<and> total_customers self = 0)"
  then show "fst (run_simulation np self g0) = Inl ValueError \<or>
      fst (run_simulation np self g0) = Inl ZeroDivisionError"
    by (rule run_simulation_fails)
next
  assume v: "0 < arrival_rate self \<and> 0 < service_rate self \<and> total_customers self = 0 \<and>
    servers self \<noteq> 0"
  then have "0 < arrival_rate self" "0 < service_rate self" "0 \<le> total_customers self"
    by simp_all
  from run_simulation_valid[OF this, of np g0] v
  show "fst (run_simulation np self g0) =
        Inr \<lparr>average_queue_length = NaN, average_response_time = NaN,
             server_utilization =
               arrival_rate self / (real_of_int (servers self) * service_rate self),
             queue_lengths_series = []\<rparr>"
    by (simp add: run_customers_0 initial_state_def mean_def)
next
  show "length (arrival_times np self) = length (service_times np self)"
    by (simp add: arrival_times_length service_times_length)
qed

text \<open>
  No server for two customers: ValueError. Two servers and no customer: a result.
\<close>

theorem invalid_parameters_outcome_witness:
  "fst (run_simulation counter_random
          \<lparr>arrival_rate = 1 / 2, service_rate = 1, servers = 0, total_customers = 2\<rparr> 7) =
     Inl ValueError \<and>
   fst (run_simulation counter_random
          \<lparr>arrival_rate = 1 / 2, service_rate = 1, servers = 2, total_customers = 0\<rparr> 7) =
     Inr \<lparr>average_queue_length = NaN, average_response_time = NaN,
          server_utilization = 1 / 4, queue_lengths_series = []\<rparr>"
proof -
  have "fst (run_simulation counter_random
          \<lparr>arrival_rate = 1 / 2, service_rate = 1, servers = 0, total_customers = 2\<rparr> 7) =
        Inl ValueError"
    by (simp add: run_simulation_valid run_customers_no_servers arrival_times_length
        service_times_length)
  with invalid_parameters_outcome[of
      "\<lparr>arrival_rate = 1 / 2, service_rate = 1, servers = 0, total_customers = 2\<rparr>"
      counter_random 7]
    invalid_parameters_outcome[of
      "\<lparr>arrival_rate = 1 / 2, service_rate = 1, servers = 2, total_customers = 0\<rparr>"
      counter_random 7]
  show ?thesis by simp
qed

subsection \<open>C3: the recorded queue length is 0 or 1\<close>

text \<open>
  Claim C3. Whenever \<open>run_simulation\<close> returns a result, its queue-length series has one
  entry per customer and every entry is 0 or 1: the counter is back at 0 before every
  customer (and after the last one), because the increment of a waiting customer is
  undone at the end of the same iteration.
\<close>

theorem queue_length_at_arrival_0_or_1:
  assumes "fst (run_simulation np self g0) = Inr r"
  shows "length (queue_lengths_series r) = nat (total_customers self) \<and>
         (\<forall>i<nat (total_customers self).
            queue_lengths_series r ! i = 0 \<or> queue_lengths_series r ! i = 1) \<and>
         (\<forall>m\<le>nat (total_customers self).
            \<exists>st. run_customers (servers self) (arrival_times np self)
                   (service_times np self) m = Inr st \<and>
                 queue_length st = 0)"
proof -
  from assms obtain fin where
    f: "run_customers (servers self) (arrival_times np self) (service_times np self)
           (nat (total_customers self)) = Inr fin"
    and r: "r = \<lparr>average_queue_length = mean (map real_of_int (queue_lengths fin)),
              average_response_time = mean (map float_val (response_times fin)),
              server_utilization =
                arrival_rate self / (real_of_int (servers self) * service_rate self),
              queue_lengths_series = queue_lengths fin\<rparr>"
    by (rule run_simulation_Inr)
  from run_customers_queue_lengths[OF f] r show ?thesis by simp
qed

text \<open>
  One server at rate 1/4, arrivals at rate 1: of three customers the second and the third
  wait, and the series is 0, 1, 1.
\<close>

theorem queue_length_at_arrival_0_or_1_witness:
  "fst (run_simulation counter_random busy_single_server 7) =
     Inr \<lparr>average_queue_length = Float (2 / 3), average_response_time = Float 11,
          server_utilization = 4, queue_lengths_series = [0, 1, 1]\<rparr> \<and>
   length [0, 1, 1::int] = nat 3 \<and>
   [0, 1, 1::int] ! 0 = 0 \<and> [0, 1, 1::int] ! 1 = 1 \<and> [0, 1, 1::int] ! 2 = 1"
proof -
  have r: "fst (run_simulation counter_random busy_single_server 7) =
     Inr \<lparr>average_queue_length = Float (2 / 3), average_response_time = Float 11,
          server_utilization = 4, queue_lengths_series = [0, 1, 1]\<rparr>"
    by (simp add: run_simulation_valid busy_streams busy_loop mean_eval)
  show ?thesis using queue_length_at_arrival_0_or_1[OF r] r by simp
qed

subsection \<open>C4: the server chosen for a customer\<close>

text \<open>
  Claim C4. In a run that completes, the server assigned to customer \<open>i\<close> is the one
  \<^verbatim>\<open>np.argmin\<close> returns on the next-free-times as they stand before that customer:
  its next-free-time is the minimum over all servers, and every server with a lower
  index has a strictly larger one (the lowest index wins a tie). No other server's
  entry changes. With a single server the chosen server is server 0.
\<close>

theorem chosen_server_first_minimum:
  assumes "run_customers k A S n = Inr fin" and "i < n"
  shows "\<exists>st st' server.
           run_customers k A S i = Inr st \<and>
           run_customers k A S (Suc i) = Inr st' \<and>
           argmin (departure_times st) = Inr server \<and>
           server < length (departure_times st) \<and>
           (\<forall>j<length (departure_times st).
              departure_times st ! server \<le> departure_times st ! j) \<and>
           (\<forall>j<server. departure_times st ! server < departure_times st ! j) \<and>
           (\<forall>j<length (departure_times st).
              j \<noteq> server \<longrightarrow> departure_times st' ! j = departure_times st ! j) \<and>
           (k = 1 \<longrightarrow> server = 0)"
proof -
  from assms obtain st server where s: "run_customers k A S i = Inr st"
    and a: "argmin (departure_times st) = Inr server"
    and s': "run_customers k A S (Suc i) =
           Inr \<lparr>departure_times = (departure_times st)
                  [server := departure_time (A ! i) (departure_times st ! server) (S ! i)],
                queue_length = 0,
                queue_lengths = queue_lengths st @
                  [if A ! i < departure_times st ! server then 1 else 0],
                response_times = response_times st @
                  [response_time (A ! i) (departure_times st ! server) (S ! i)]\<rparr>"
    by (rule run_customers_record)
  from argmin_first_min[OF a] have m: "is_first_min (departure_times st) server" .
  from run_customers_invariant[OF s] have len: "length (departure_times st) = nat k" by simp
  from m len have one: "k = 1 \<longrightarrow> server = 0" by (auto simp: is_first_min_def)
  from s s' a m one show ?thesis unfolding is_first_min_def by simp
qed

text \<open>
  Three servers, the third customer: servers 0 and 1 are busy until 6 and 7, server 2 is
  still at 0 and is chosen.
\<close>

theorem chosen_server_first_minimum_witness:
  "run_customers 3 [Float64 1, Float64 2, Float64 3] [Float64 5, Float64 5, Float64 1] 3 =
     Inr \<lparr>departure_times = [Float64 6, Float64 7, Float64 4], queue_length = 0,
          queue_lengths = [0, 0, 0], response_times = [Float64 5, Float64 5, Float64 1]\<rparr> \<and>
   (2::nat) < 3 \<and>
   run_customers 3 [Float64 1, Float64 2, Float64 3] [Float64 5, Float64 5, Float64 1] 2 =
     Inr \<lparr>departure_times = [Float64 6, Float64 7, 0], queue_length = 0,
          queue_lengths = [0, 0], response_times = [Float64 5, Float64 5]\<rparr> \<and>
   argmin [Float64 6, Float64 7, 0] = Inr 2"
proof -
  have r: "run_customers 3 [Float64 1, Float64 2, Float64 3]
        [Float64 5, Float64 5, Float64 1] 3 =
     Inr \<lparr>departure_times = [Float64 6, Float64 7, Float64 4], queue_length = 0,
          queue_lengths = [0, 0, 0], response_times = [Float64 5, Float64 5, Float64 1]\<rparr>"
    by (simp add: loop_eval)
  have "run_customers 3 [Float64 1, Float64 2, Float64 3]
        [Float64 5, Float64 5, Float64 1] 2 =
     Inr \<lparr>departure_times = [Float64 6, Float64 7, 0], queue_length = 0,
          queue_lengths = [0, 0], response_times = [Float64 5, Float64 5]\<rparr>"
    by (simp add: loop_eval)
  moreover have "argmin [Float64 6, Float64 7, 0] = Inr 2"
    by (simp add: float64_eval)
  ultimately show ?thesis using chosen_server_first_minimum[OF r, of 2] r by simp
qed

text \<open>A tie: of the entries 3, 1, 2, 1 the first 1 is found, at index 1.\<close>

lemma argmin_tie_example: "argmin [Float64 3, Float64 1, Float64 2, Float64 1] = Inr 1"
  by (simp add: float64_eval)

subsection \<open>C5: the reported utilization\<close>

text \<open>
  Claim C5. Whenever \<open>run_simulation\<close> returns a result, its utilization is
  \<open>arrival_rate / (servers * service_rate)\<close>, computed from the configuration alone;
  for arrival rate 1/2, service rate 1 and one server it is 1/2.
\<close>

theorem server_utilization_closed_form:
  assumes "fst (run_simulation np self g0) = Inr r"
  shows "server_utilization r =
           arrival_rate self / (real_of_int (servers self) * service_rate self) \<and>
         (arrival_rate self = 1 / 2 \<and> service_rate self = 1 \<and> servers self = 1 \<longrightarrow>
            server_utilization r = 1 / 2)"
proof -
  from assms have "server_utilization r =
           arrival_rate self / (real_of_int (servers self) * service_rate self)"
    by (rule run_simulation_Inr) simp
  then show ?thesis by simp
qed

theorem server_utilization_closed_form_witness:
  "fst (run_simulation counter_random half_loaded_server 7) =
     Inr \<lparr>average_queue_length = Float 0, average_response_time = Float 2,
          server_utilization = 1 / 2, queue_lengths_series = [0, 0, 0]\<rparr> \<and>
   server_utilization \<lparr>average_queue_length = Float 0, average_response_time = Float 2,
          server_utilization = 1 / 2, queue_lengths_series = [0, 0, 0]\<rparr> = 1 / 2"
proof -
  have r: "fst (run_simulation counter_random half_loaded_server 7) =
     Inr \<lparr>average_queue_length = Float 0, average_response_time = Float 2,
          server_utilization = 1 / 2, queue_lengths_series = [0, 0, 0]\<rparr>"
    by (simp add: run_simulation_valid half_loaded_streams half_loaded_loop mean_eval)
  show ?thesis using server_utilization_closed_form[OF r] r by simp
qed

subsection \<open>C6: the response time and the service time\<close>

text \<open>
  Claim C6 says that the response time recorded for a customer is never less than the
  customer's service duration. The response time is computed as (start + service) -
  arrival in floats, and both operations round. One server, one customer arriving at
  0.9385361799537182 with service duration 1.3167456935454493: the server is free, the
  departure time is the float 2.2552818734991673, and the response time recorded is
  1.3167456935454491, which is less than the service duration.
\<close>

theorem response_time_below_service:
  "run_customers 1 [f0_9385361799537182] [f1_3167456935454493] 1 =
     Inr \<lparr>departure_times = [f2_2552818734991673], queue_length = 0, queue_lengths = [0],
          response_times = [f1_3167456935454491]\<rparr> \<and>
   [f1_3167456935454491] ! 0 < [f1_3167456935454493] ! 0 \<and>
   float_val f1_3167456935454491 = 2965047707396495 / 2 ^ 51 \<and>
   float_val f1_3167456935454493 = 5930095414792991 / 2 ^ 52"
proof -
  have "float_val f1_3167456935454491 = 2965047707396495 / 2 ^ 51"
    unfolding f1_3167456935454491_def
    by (simp only: float_val_Float64 val_1_3167456935454491)
  moreover have "float_val f1_3167456935454493 = 5930095414792991 / 2 ^ 52"
    unfolding f1_3167456935454493_def
    by (simp only: float_val_Float64 val_1_3167456935454493)
  ultimately show ?thesis
    using first_loop first_response_less by simp
qed

text \<open>
  Claim C6, amended. In a run that completes, with service durations that are not
  negative and next-free-times that stay finite, the response time recorded for a
  customer \<open>i\<close> whose arrival time is not negative is the float (start + service) -
  arrival, where the start is the larger of the arrival time and the chosen server's
  next-free-time. It is not negative and not more than the departure time, and it falls
  short of the service duration by no more than the rounding of the two operations: the
  service duration is at most the response time plus the departure time times
  \<open>2 ^ - 52\<close>.
\<close>

theorem response_time_rounded:
  assumes "run_customers k A S n = Inr fin" and "i < n"
    and "\<forall>m<n. 0 \<le> S ! m" and "0 \<le> A ! i"
    and "\<forall>d\<in>set (departure_times fin). d \<le> max_float64"
  shows "\<exists>st server.
           run_customers k A S i = Inr st \<and>
           argmin (departure_times st) = Inr server \<and>
           (let start = max (A ! i) (departure_times st ! server);
                departure = start + S ! i
            in response_times fin ! i = departure - A ! i \<and>
               departure \<le> max_float64 \<and>
               0 \<le> response_times fin ! i \<and>
               response_times fin ! i \<le> departure \<and>
               float_val (S ! i) \<le>
                 float_val (response_times fin ! i) + float_val departure / 2 ^ 52)"
proof -
  from assms(1,2) obtain st server where s: "run_customers k A S i = Inr st"
    and a: "argmin (departure_times st) = Inr server"
    and b: "server < length (departure_times st)"
    and s': "run_customers k A S (Suc i) =
           Inr \<lparr>departure_times = (departure_times st)
                  [server := departure_time (A ! i) (departure_times st ! server) (S ! i)],
                queue_length = 0,
                queue_lengths = queue_lengths st @
                  [if A ! i < departure_times st ! server then 1 else 0],
                response_times = response_times st @
                  [response_time (A ! i) (departure_times st ! server) (S ! i)]\<rparr>"
    and r: "response_times fin ! i = response_time (A ! i) (departure_times st ! server) (S ! i)"
    by (rule run_customers_record)
  let ?start = "max (A ! i) (departure_times st ! server)"
  let ?departure = "?start + S ! i"
  have st: "start_service_time (A ! i) (departure_times st ! server) = ?start"
    by (auto simp: start_service_time_def max_def)
  from r st have resp: "response_times fin ! i = ?departure - A ! i"
    by (simp add: response_time_def departure_time_def)
  have le: "A ! i \<le> ?start" by simp
  from assms(2,3) have s0: "0 \<le> S ! i" by simp
  let ?dts = "(departure_times st)
    [server := departure_time (A ! i) (departure_times st ! server) (S ! i)]"
  from assms(2) have "Suc i \<le> n" by simp
  from run_customers_mono[OF assms(1) s' this assms(3)]
  have l: "length ?dts = length (departure_times fin)"
    and mono: "\<forall>srv<length ?dts. ?dts ! srv \<le> departure_times fin ! srv"
    by simp_all
  from b have "server < length ?dts" by simp
  with mono have "?dts ! server \<le> departure_times fin ! server" by blast
  with b st have "?departure \<le> departure_times fin ! server"
    by (simp add: departure_time_def)
  moreover from l b have "server < length (departure_times fin)" by simp
  with assms(5) have "departure_times fin ! server \<le> max_float64" by simp
  ultimately have fin: "?departure \<le> max_float64" by simp
  from float_response_nonneg[OF assms(4) le s0] resp
  have nn: "0 \<le> response_times fin ! i" "response_times fin ! i \<le> ?departure"
    by simp_all
  from float_response_shortfall[OF assms(4) le s0] resp
  have "float_val (S ! i) \<le>
          float_val (response_times fin ! i) + float_val ?departure / 2 ^ 52"
    by simp
  with s a resp fin nn show ?thesis
    unfolding Let_def by blast
qed

text \<open>
  One server, three customers arriving at 1, 2 and 3 with service durations 5, 1 and 5:
  the second customer starts at 6, departs at 7 and has response time 5, no less than
  its service duration 1.
\<close>

theorem response_time_rounded_witness:
  "run_customers 1 [Float64 1, Float64 2, Float64 3] [Float64 5, Float64 1, Float64 5] 3 =
     Inr \<lparr>departure_times = [Float64 12], queue_length = 0, queue_lengths = [0, 1, 1],
          response_times = [Float64 5, Float64 5, Float64 9]\<rparr> \<and>
   (1::nat) < 3 \<and>
   0 \<le> [Float64 5, Float64 1, Float64 5] ! 0 \<and> 0 \<le> [Float64 5, Float64 1, Float64 5] ! 1 \<and>
   0 \<le> [Float64 5, Float64 1, Float64 5] ! 2 \<and>
   0 \<le> [Float64 1, Float64 2, Float64 3] ! 1 \<and>
   Float64 12 \<le> max_float64 \<and>
   run_customers 1 [Float64 1, Float64 2, Float64 3] [Float64 5, Float64 1, Float64 5] 1 =
     Inr \<lparr>departure_times = [Float64 6], queue_length = 0, queue_lengths = [0],
          response_times = [Float64 5]\<rparr> \<and>
   argmin [Float64 6] = Inr 0 \<and>
   max (Float64 2) (Float64 6) + Float64 1 = Float64 7 \<and>
   Float64 7 - Float64 2 = Float64 5 \<and>
   float_val (Float64 1) \<le> float_val (Float64 5) + float_val (Float64 7) / 2 ^ 52"
proof -
  have r: "run_customers 1 [Float64 1, Float64 2, Float64 3]
          [Float64 5, Float64 1, Float64 5] 3 =
     Inr \<lparr>departure_times = [Float64 12], queue_length = 0, queue_lengths = [0, 1, 1],
          response_times = [Float64 5, Float64 5, Float64 9]\<rparr>"
    by (simp add: loop_eval)
  have s: "\<forall>m<3. 0 \<le> [Float64 5, Float64 1, Float64 5] ! m"
    by (simp add: less_Suc_eq eval_nat_numeral Float64_nonneg)
  have a: "0 \<le> [Float64 1, Float64 2, Float64 3] ! 1"
    by (simp add: Float64_nonneg)
  have m: "Float64 12 \<le> max_float64"
    by (simp add: numeral_le_max_float64)
  then have d: "\<forall>d\<in>set (departure_times
       \<lparr>departure_times = [Float64 12], queue_length = 0, queue_lengths = [0, 1, 1],
        response_times = [Float64 5, Float64 5, Float64 9]\<rparr>). d \<le> max_float64"
    by simp
  have one: "run_customers 1 [Float64 1, Float64 2, Float64 3]
          [Float64 5, Float64 1, Float64 5] 1 =
     Inr \<lparr>departure_times = [Float64 6], queue_length = 0, queue_lengths = [0],
          response_times = [Float64 5]\<rparr>"
    by (simp add: loop_eval)
  have v: "max (Float64 2) (Float64 6) + Float64 1 = Float64 7"
    "Float64 7 - Float64 2 = Float64 5"
    by (simp_all add: max_def float64_eval)
  have "float_val (Float64 1) \<le> float_val (Float64 5) + float_val (Float64 7) / 2 ^ 52"
    by (simp add: mean_eval)
  with r one m v show ?thesis
    using response_time_rounded[OF r _ s a d] s a by (simp add: Float64_nonneg)
qed

subsection \<open>C7: two runs of the same configuration\<close>

text \<open>
  Claim C7. \<open>run_simulation\<close> reseeds the generator with 42 before it draws anything, so
  its result (and the generator state it leaves) depends on the configuration only, not
  on the generator state it is called in: two calls with the same configuration return
  the same value, from whatever states they start, and so does a second call made right
  after a first one.
\<close>

theorem run_simulation_deterministic:
  "run_simulation np self g0 = run_simulation np self g0' \<and>
   fst (run_simulation np self (snd (run_simulation np self g0))) =
     fst (run_simulation np self g0)"
  by (simp add: run_simulation_def)

theorem run_simulation_deterministic_witness:
  "run_simulation counter_random busy_single_server 7 =
   run_simulation counter_random busy_single_server 100 \<and>
   run_simulation counter_random busy_single_server 7 =
     (Inr \<lparr>average_queue_length = Float (2 / 3), average_response_time = Float 11,
           server_utilization = 4, queue_lengths_series = [0, 1, 1]\<rparr>, 6)"
proof -
  have "fst (run_simulation counter_random busy_single_server 7) =
     Inr \<lparr>average_queue_length = Float (2 / 3), average_response_time = Float 11,
          server_utilization = 4, queue_lengths_series = [0, 1, 1]\<rparr>"
    by (simp add: run_simulation_valid busy_streams busy_loop mean_eval)
  moreover have "snd (run_simulation counter_random busy_single_server 7) = 6"
    by (rule busy_generator)
  ultimately have "run_simulation counter_random busy_single_server 7 =
     (Inr \<lparr>average_queue_length = Float (2 / 3), average_response_time = Float 11,
           server_utilization = 4, queue_lengths_series = [0, 1, 1]\<rparr>, 6)"
    by (simp add: prod_eq_iff)
  then show ?thesis
    using run_simulation_deterministic[of counter_random busy_single_server 7 100] by simp
qed

subsection \<open>C8: more servers than customers\<close>

text \<open>
  Claim C8. A call with positive rates, a generator whose variates are not negative (as
  exponential variates are) and more servers than customers returns a result; no customer
  waits: every recorded queue length is 0, and every customer finds the chosen server
  free on arrival, so that the service starts at the arrival time.
\<close>

theorem more_servers_than_customers:
  assumes "0 < arrival_rate self" and "0 < service_rate self"
    and "0 \<le> total_customers self" and "total_customers self < servers self"
    and "\<forall>g. 0 \<le> fst (standard_exponential np g)"
  shows "\<exists>r fin.
           fst (run_simulation np self g0) = Inr r \<and>
           run_customers (servers self) (arrival_times np self) (service_times np self)
             (nat (total_customers self)) = Inr fin \<and>
           queue_lengths_series r = queue_lengths fin \<and>
           queue_lengths fin = replicate (nat (total_customers self)) 0 \<and>
           (\<forall>i<nat (total_customers self). \<exists>st server.
              run_customers (servers self) (arrival_times np self) (service_times np self) i
                = Inr st \<and>
              argmin (departure_times st) = Inr server \<and>
              \<not> arrival_times np self ! i < departure_times st ! server \<and>
              start_service_time (arrival_times np self ! i) (departure_times st ! server) =
                arrival_times np self ! i)"
proof -
  from assms(3,4) have k: "int (nat (total_customers self)) < servers self" by simp
  from run_customers_all_immediate[OF k arrival_times_length service_times_length
      arrival_times_nonneg[OF assms(5,1)]]
  obtain fin where f: "run_customers (servers self) (arrival_times np self)
        (service_times np self) (nat (total_customers self)) = Inr fin"
    and rest: "queue_lengths fin = replicate (nat (total_customers self)) 0"
      "\<forall>i<nat (total_customers self). \<exists>st server.
              run_customers (servers self) (arrival_times np self) (service_times np self) i
                = Inr st \<and>
              argmin (departure_times st) = Inr server \<and>
              \<not> arrival_times np self ! i < departure_times st ! server \<and>
              start_service_time (arrival_times np self ! i) (departure_times st ! server) =
                arrival_times np self ! i"
    by blast
  from assms(3,4) have "servers self \<noteq> 0" by simp
  with run_simulation_valid[OF assms(1-3), of np g0] f
  have "fst (run_simulation np self g0) =
     Inr \<lparr>average_queue_length = mean (map real_of_int (queue_lengths fin)),
          average_response_time = mean (map float_val (response_times fin)),
          server_utilization =
            arrival_rate self / (real_of_int (servers self) * service_rate self),
          queue_lengths_series = queue_lengths fin\<rparr>"
    by simp
  with f rest show ?thesis by simp
qed

text \<open>Four servers for three customers.\<close>

theorem more_servers_than_customers_witness:
  "(\<forall>g. 0 \<le> fst (standard_exponential counter_random g)) \<and>
   fst (run_simulation counter_random idle_four_servers 7) =
     Inr \<lparr>average_queue_length = Float 0, average_response_time = Float 8,
          server_utilization = 1, queue_lengths_series = [0, 0, 0]\<rparr> \<and>
   arrival_times counter_random idle_four_servers = [Float64 1, Float64 3, Float64 6] \<and>
   service_times counter_random idle_four_servers = [Float64 4, Float64 8, Float64 12] \<and>
   run_customers 4 [Float64 1, Float64 3, Float64 6] [Float64 4, Float64 8, Float64 12] 3 =
     Inr \<lparr>departure_times = [Float64 5, Float64 11, Float64 18, 0], queue_length = 0,
          queue_lengths = [0, 0, 0], response_times = [Float64 4, Float64 8, Float64 12]\<rparr>"
proof -
  have "fst (run_simulation counter_random idle_four_servers 7) =
     Inr \<lparr>average_queue_length = Float 0, average_response_time = Float 8,
          server_utilization = 1, queue_lengths_series = [0, 0, 0]\<rparr>"
    by (simp add: run_simulation_valid idle_streams idle_loop mean_eval)
  then show ?thesis
    using more_servers_than_customers[of idle_four_servers counter_random 7]
      counter_random_nonneg idle_streams idle_loop
    by simp
qed

subsection \<open>C9: a single customer\<close>

text \<open>
  Claim C9 says that with a single customer the response time is the customer's service
  duration. The response time is computed as (arrival + service) - arrival in floats,
  and the sum rounds. With arrival rate 0.3, service rate 1, one server and the variates
  0.4692680899768591 and 3.010121430917521, the customer arrives at 1.5642269665895303
  and is served for 3.010121430917521; the departure time is the float
  4.574348397507052, and the response time recorded, which is also the average reported,
  is 3.0101214309175215: more than the service duration.
\<close>

theorem single_customer_response_differs:
  "0 < arrival_rate lone_customer_03 \<and> 0 < service_rate lone_customer_03 \<and>
   total_customers lone_customer_03 = 1 \<and> 1 \<le> servers lone_customer_03 \<and>
   (\<forall>g. 0 \<le> fst (standard_exponential two_variates g)) \<and>
   fst (run_simulation two_variates lone_customer_03 7) =
     Inr \<lparr>average_queue_length = Float 0,
          average_response_time = Float (6778190877310047 / 2 ^ 51),
          server_utilization = r0_3, queue_lengths_series = [0]\<rparr> \<and>
   arrival_times two_variates lone_customer_03 = [f1_5642269665895303] \<and>
   service_times two_variates lone_customer_03 = [f3_010121430917521] \<and>
   run_customers 1 [f1_5642269665895303] [f3_010121430917521] 1 =
     Inr \<lparr>departure_times = [f4_574348397507052], queue_length = 0, queue_lengths = [0],
          response_times = [f3_0101214309175215]\<rparr> \<and>
   f3_010121430917521 < f3_0101214309175215 \<and>
   float_val f3_010121430917521 = 3389095438655023 / 2 ^ 50 \<and>
   float_val f3_0101214309175215 = 6778190877310047 / 2 ^ 51"
proof -
  have "fst (run_simulation two_variates lone_customer_03 7) =
     Inr \<lparr>average_queue_length = Float 0,
          average_response_time = Float (6778190877310047 / 2 ^ 51),
          server_utilization = r0_3, queue_lengths_series = [0]\<rparr>"
    using r0_3_pos lone_loop
    by (simp add: run_simulation_valid lone_streams mean_def lone_response_val)
  moreover have "float_val f3_010121430917521 = 3389095438655023 / 2 ^ 50"
    unfolding f3_010121430917521_def
    by (simp only: float_val_Float64 val_3_010121430917521)
  ultimately show ?thesis
    using lone_streams lone_loop lone_response_differs lone_response_val r0_3_pos
      two_variates_nonneg
    by simp
qed

text \<open>
  Claim C9, amended. A call with one customer, at least one server, positive rates whose
  reciprocals are finite floats, a generator whose variates are not negative, and a
  finite departure time returns a result; the customer does not wait: the one recorded
  queue length is 0, and the one response time, which is also the reported average
  response time, is the float (arrival + service) - arrival. It is not negative, and it
  differs from the service duration by no more than the departure time times
  \<open>2 ^ - 52\<close>.
\<close>

theorem single_customer:
  assumes "0 < arrival_rate self" and "0 < service_rate self"
    and "total_customers self = 1" and "1 \<le> servers self"
    and "\<forall>g. 0 \<le> fst (standard_exponential np g)"
    and "Float64 (1 / arrival_rate self) \<le> max_float64"
    and "Float64 (1 / service_rate self) \<le> max_float64"
    and "hd (arrival_times np self) + hd (service_times np self) \<le> max_float64"
  shows "\<exists>r fin a s.
           fst (run_simulation np self g0) = Inr r \<and>
           arrival_times np self = [a] \<and>
           service_times np self = [s] \<and>
           run_customers (servers self) (arrival_times np self) (service_times np self) 1
             = Inr fin \<and>
           queue_lengths_series r = [0] \<and>
           queue_lengths fin = [0] \<and>
           departure_times fin ! 0 = a + s \<and>
           a + s \<le> max_float64 \<and>
           response_times fin = [a + s - a] \<and>
           average_queue_length r = Float 0 \<and>
           average_response_time r = Float (float_val (a + s - a)) \<and>
           0 \<le> a + s - a \<and>
           \<bar>float_val (a + s - a) - float_val s\<bar> \<le> float_val (a + s) / 2 ^ 52"
proof -
  from assms(3) have n: "0 \<le> total_customers self" "nat (total_customers self) = 1"
    by simp_all
  from arrival_times_length[of np self] n obtain a where a: "arrival_times np self = [a]"
    by (auto simp: length_Suc_conv)
  from service_times_length[of np self] n obtain s where s: "service_times np self = [s]"
    by (auto simp: length_Suc_conv)
  from arrival_times_nonneg[OF assms(5,1)] a have a0: "0 \<le> a" by simp
  from service_times_nonneg[OF assms(5,2)] s have s0: "0 \<le> s" by simp
  from assms(8) a s have m: "a + s \<le> max_float64" by simp
  from run_customers_single[OF assms(4) a0, of s]
  obtain fin where f: "run_customers (servers self) [a] [s] 1 = Inr fin"
    and q: "queue_lengths fin = [0]" and t: "response_times fin = [a + s - a]"
    by blast
  from run_customers_first_departure[OF f assms(4) a0]
  have d: "departure_times fin ! 0 = a + s" .
  from float_response_nonneg[OF a0 order_refl s0] have r0: "0 \<le> a + s - a" by simp
  note near = float_response_near[OF a0 s0]
  from assms(4) have "servers self \<noteq> 0" by simp
  with run_simulation_valid[OF assms(1,2) n(1), of np g0] f a s n q t
  have "fst (run_simulation np self g0) =
     Inr \<lparr>average_queue_length = Float 0,
          average_response_time = Float (float_val (a + s - a)),
          server_utilization =
            arrival_rate self / (real_of_int (servers self) * service_rate self),
          queue_lengths_series = [0]\<rparr>"
    by (simp add: mean_def)
  with f a s q t d m r0 near show ?thesis by simp
qed

text \<open>
  One customer, arriving at 1 and served for 8: the response time is (1 + 8) - 1 = 8.
\<close>

theorem single_customer_witness:
  "(\<forall>g. 0 \<le> fst (standard_exponential counter_random g)) \<and>
   Float64 (1 / 1) \<le> max_float64 \<and> Float64 (1 / (1 / 4)) \<le> max_float64 \<and>
   hd [Float64 1] + hd [Float64 8] \<le> max_float64 \<and>
   fst (run_simulation counter_random lone_customer 7) =
     Inr \<lparr>average_queue_length = Float 0, average_response_time = Float 8,
          server_utilization = 4, queue_lengths_series = [0]\<rparr> \<and>
   arrival_times counter_random lone_customer = [Float64 1] \<and>
   service_times counter_random lone_customer = [Float64 8] \<and>
   run_customers 1 [Float64 1] [Float64 8] 1 =
     Inr \<lparr>departure_times = [Float64 9], queue_length = 0, queue_lengths = [0],
          response_times = [Float64 8]\<rparr> \<and>
   Float64 1 + Float64 8 - Float64 1 = Float64 8"
proof -
  have r: "fst (run_simulation counter_random lone_customer 7) =
     Inr \<lparr>average_queue_length = Float 0, average_response_time = Float 8,
          server_utilization = 4, queue_lengths_series = [0]\<rparr>"
    using lone_customer_loop
    by (simp add: run_simulation_valid lone_customer_streams mean_eval)
  have m: "Float64 (1 / 1) \<le> max_float64" "Float64 (1 / (1 / 4)) \<le> max_float64"
    "hd [Float64 1] + hd [Float64 8] \<le> max_float64"
    by (simp_all add: one_le_max_float64 numeral_le_max_float64 Float64_plus round64_1
        round64_numeral)
  have v: "Float64 1 + Float64 8 - Float64 1 = Float64 8"
    by (simp add: float64_eval)
  from m have h: "hd (arrival_times counter_random lone_customer)
       + hd (service_times counter_random lone_customer) \<le> max_float64"
    by (simp add: lone_customer_streams)
  from r m v show ?thesis
    using single_customer[of lone_customer counter_random 7, OF _ _ _ _ counter_random_nonneg _ _ h]
      counter_random_nonneg lone_customer_streams lone_customer_loop
    by simp
qed

subsection \<open>C10: next-free-times never decrease\<close>

text \<open>
  Claim C10. In a run that completes and whose service durations are not negative, the
  next-free-time of every server at a later point of the run is at least what it was at
  an earlier point; for each customer the chosen server's entry is replaced by the
  maximum of the arrival time and the old entry, plus the service duration, which is at
  least the old entry and at least the customer's arrival time.
\<close>

theorem next_free_times_nondecreasing:
  assumes "run_customers k A S n = Inr fin" and "\<forall>m<n. 0 \<le> S ! m"
  shows "(\<forall>i j. i \<le> j \<and> j \<le> n \<longrightarrow>
            (\<exists>sti stj. run_customers k A S i = Inr sti \<and> run_customers k A S j = Inr stj \<and>
               length (departure_times sti) = length (departure_times stj) \<and>
               (\<forall>srv<length (departure_times sti).
                  departure_times sti ! srv \<le> departure_times stj ! srv))) \<and>
         (\<forall>i<n. \<exists>st st' server.
            run_customers k A S i = Inr st \<and> run_customers k A S (Suc i) = Inr st' \<and>
            argmin (departure_times st) = Inr server \<and>
            departure_times st' ! server = max (A ! i) (departure_times st ! server) + S ! i \<and>
            departure_times st ! server \<le> departure_times st' ! server \<and>
            A ! i \<le> departure_times st' ! server)"
proof (intro conjI allI impI)
  fix i j assume ij: "i \<le> j \<and> j \<le> n"
  with assms(1) obtain stj where sj: "run_customers k A S j = Inr stj"
    using run_customers_prefix by blast
  from ij sj obtain sti where si: "run_customers k A S i = Inr sti"
    using run_customers_prefix by blast
  from ij assms(2) have "\<forall>m<j. 0 \<le> S ! m" by simp
  from run_customers_mono[OF sj si _ this] ij si sj
  show "\<exists>sti stj. run_customers k A S i = Inr sti \<and> run_customers k A S j = Inr stj \<and>
               length (departure_times sti) = length (departure_times stj) \<and>
               (\<forall>srv<length (departure_times sti).
                  departure_times sti ! srv \<le> departure_times stj ! srv)"
    by blast
next
  fix i assume i: "i < n"
  with assms(1) obtain st server where s: "run_customers k A S i = Inr st"
    and a: "argmin (departure_times st) = Inr server"
    and s': "run_customers k A S (Suc i) =
           Inr \<lparr>departure_times = (departure_times st)
                  [server := departure_time (A ! i) (departure_times st ! server) (S ! i)],
                queue_length = 0,
                queue_lengths = queue_lengths st @
                  [if A ! i < departure_times st ! server then 1 else 0],
                response_times = response_times st @
                  [response_time (A ! i) (departure_times st ! server) (S ! i)]\<rparr>"
    by (rule run_customers_record)
  from argmin_first_min[OF a] have b: "server < length (departure_times st)"
    by (simp add: is_first_min_def)
  from assms(2) i have "0 \<le> S ! i" by simp
  then have inc: "max (A ! i) (departure_times st ! server)
      \<le> max (A ! i) (departure_times st ! server) + S ! i"
    by (rule float_add_increasing)
  have mx: "start_service_time (A ! i) (departure_times st ! server) =
      max (A ! i) (departure_times st ! server)"
    by (auto simp: start_service_time_def max_def)
  have "departure_times st ! server \<le> max (A ! i) (departure_times st ! server)"
    and "A ! i \<le> max (A ! i) (departure_times st ! server)"
    by simp_all
  with inc have "departure_times st ! server
      \<le> max (A ! i) (departure_times st ! server) + S ! i"
    and "A ! i \<le> max (A ! i) (departure_times st ! server) + S ! i"
    by (blast intro: order_trans)+
  with b mx have "departure_times ((\<lparr>departure_times = (departure_times st)
                  [server := departure_time (A ! i) (departure_times st ! server) (S ! i)],
                queue_length = 0,
                queue_lengths = queue_lengths st @
                  [if A ! i < departure_times st ! server then 1 else 0],
                response_times = response_times st @
                  [response_time (A ! i) (departure_times st ! server) (S ! i)]\<rparr>)) ! server
       = max (A ! i) (departure_times st ! server) + S ! i \<and>
       departure_times st ! server \<le> max (A ! i) (departure_times st ! server) + S ! i \<and>
       A ! i \<le> max (A ! i) (departure_times st ! server) + S ! i"
    by (simp add: departure_time_def)
  with s s' a show "\<exists>st st' server.
            run_customers k A S i = Inr st \<and> run_customers k A S (Suc i) = Inr st' \<and>
            argmin (departure_times st) = Inr server \<and>
            departure_times st' ! server = max (A ! i) (departure_times st ! server) + S ! i \<and>
            departure_times st ! server \<le> departure_times st' ! server \<and>
            A ! i \<le> departure_times st' ! server"
    by (metis (no_types, lifting))
qed

text \<open>
  One server, three customers: its next-free-time goes from 0 to 6, 7 and 12.
\<close>

theorem next_free_times_nondecreasing_witness:
  "run_customers 1 [Float64 1, Float64 2, Float64 3] [Float64 5, Float64 1, Float64 5] 3 =
     Inr \<lparr>departure_times = [Float64 12], queue_length = 0, queue_lengths = [0, 1, 1],
          response_times = [Float64 5, Float64 5, Float64 9]\<rparr> \<and>
   0 \<le> [Float64 5, Float64 1, Float64 5] ! 0 \<and> 0 \<le> [Float64 5, Float64 1, Float64 5] ! 1 \<and>
   0 \<le> [Float64 5, Float64 1, Float64 5] ! 2 \<and>
   run_customers 1 [Float64 1, Float64 2, Float64 3] [Float64 5, Float64 1, Float64 5] 1 =
     Inr \<lparr>departure_times = [Float64 6], queue_length = 0, queue_lengths = [0],
          response_times = [Float64 5]\<rparr> \<and>
   run_customers 1 [Float64 1, Float64 2, Float64 3] [Float64 5, Float64 1, Float64 5] 2 =
     Inr \<lparr>departure_times = [Float64 7], queue_length = 0, queue_lengths = [0, 1],
          response_times = [Float64 5, Float64 5]\<rparr> \<and>
   [Float64 6] ! 0 \<le> [Float64 7] ! 0 \<and> [Float64 2] ! 0 \<le> [Float64 7] ! 0 \<and>
   max (Float64 2) (Float64 6) + Float64 1 = Float64 7"
proof -
  have r: "run_customers 1 [Float64 1, Float64 2, Float64 3]
        [Float64 5, Float64 1, Float64 5] 3 =
     Inr \<lparr>departure_times = [Float64 12], queue_length = 0, queue_lengths = [0, 1, 1],
          response_times = [Float64 5, Float64 5, Float64 9]\<rparr>"
    by (simp add: loop_eval)
  have nn: "\<forall>m<3. 0 \<le> [Float64 5, Float64 1, Float64 5] ! m"
    by (simp add: less_Suc_eq eval_nat_numeral Float64_nonneg)
  have "run_customers 1 [Float64 1, Float64 2, Float64 3]
        [Float64 5, Float64 1, Float64 5] 1 =
     Inr \<lparr>departure_times = [Float64 6], queue_length = 0, queue_lengths = [0],
          response_times = [Float64 5]\<rparr>"
    by (simp add: loop_eval)
  moreover have "run_customers 1 [Float64 1, Float64 2, Float64 3]
        [Float64 5, Float64 1, Float64 5] 2 =
     Inr \<lparr>departure_times = [Float64 7], queue_length = 0, queue_lengths = [0, 1],
          response_times = [Float64 5, Float64 5]\<rparr>"
    by (simp add: loop_eval)
  moreover have "[Float64 6] ! 0 \<le> [Float64 7] ! 0" "[Float64 2] ! 0 \<le> [Float64 7] ! 0"
    "max (Float64 2) (Float64 6) + Float64 1 = Float64 7"
    by (simp_all add: max_def float64_eval)
  ultimately show ?thesis
    using next_free_times_nondecreasing[OF r nn] r nn by (simp add: Float64_nonneg)
qed

end
